theory Spec2Isabelle
  imports
    Complex_Main
    "HOL-Library.Sublist"
    "HOL-Library.Char_ord"
    "HOL-Library.List_Lexorder"
    "HOL-Library.Log_Nat"
begin

section \<open>The sales dashboard's data pipeline (services/dataProcessor)\<close>

text \<open>
  The TypeScript module \<^verbatim>\<open>dataProcessor\<close> holds five pure functions:
  \<^verbatim>\<open>mapProductCategory\<close>, \<^verbatim>\<open>processData\<close>, \<^verbatim>\<open>filterData\<close>,
  \<^verbatim>\<open>aggregateByField\<close> and \<^verbatim>\<open>getTrendData\<close>. Each is embedded below under its
  own name, statement by statement.

  Conventions of the embedding.
  \<^item> A JavaScript string is a HOL \<^typ>\<open>string\<close> holding its UTF-8 bytes; the strings are
    taken to be well-formed Unicode, for which substring search, equality and the
    comparisons of this module agree on UTF-8 bytes and on UTF-16 code units.
  \<^item> \<^verbatim>\<open>amount\<close> and \<^verbatim>\<open>quantity\<close> are finite Numbers, that is binary64 values: a finite
    Number is the rational number it denotes, and every sum, quotient and product of the
    module is rounded to binary64 as ECMA-262 prescribes (subsection \<open>Binary64\<close>). The
    amounts of the data model are signed decimal values: \<^verbatim>\<open>NaN\<close> and the infinities are
    not among them. The embedding is that of the code as long as no result reaches the
    magnitude \<open>2^1024\<close>, where the code overflows to \<^verbatim>\<open>Infinity\<close>; a theorem whose
    statement depends on it has a hypothesis that keeps the sums below. The two zeros of
    binary64 are one value here: the module never divides by a zero, so that its results do
    not tell them apart.
  \<^item> \<^verbatim>\<open>year\<close>, \<^verbatim>\<open>month\<close> and the results of \<^verbatim>\<open>parseInt\<close> are integral Numbers
    or \<^verbatim>\<open>NaN\<close> (type \<open>number\<close> below), exact while below \<open>2^53\<close> in magnitude.
\<close>

subsection \<open>Strings\<close>

text \<open>
  \<^verbatim>\<open>s.includes(k)\<close>: some position of \<open>s\<close> starts an occurrence of \<open>k\<close>. The scan runs
  over the start positions from left to right; the position after the last character is
  tried too, where only the empty \<open>k\<close> occurs.
\<close>

fun str_includes :: "string \<Rightarrow> string \<Rightarrow> bool" where
  "str_includes [] k = (k = [])"
| "str_includes (c # s) k = (prefix k (c # s) \<or> str_includes s k)"

text \<open>A string in a condition is true exactly when it is not empty.\<close>

definition truthy :: "string \<Rightarrow> bool" where
  "truthy s = (s \<noteq> [])"

subsection \<open>Numbers\<close>

text \<open>
  The Numbers this module compares and multiplies are \<^verbatim>\<open>year\<close>, \<^verbatim>\<open>month\<close> and what
  \<^verbatim>\<open>parseInt\<close> returns: an integer or \<^verbatim>\<open>NaN\<close>. Arithmetic with \<^verbatim>\<open>NaN\<close> gives \<^verbatim>\<open>NaN\<close>,
  and every comparison with \<^verbatim>\<open>NaN\<close> is false.
\<close>

datatype number = NaN | Num int

fun num_add :: "number \<Rightarrow> number \<Rightarrow> number" where
  "num_add (Num a) (Num b) = Num (a + b)"
| "num_add _ _ = NaN"

fun num_mul :: "number \<Rightarrow> number \<Rightarrow> number" where
  "num_mul (Num a) (Num b) = Num (a * b)"
| "num_mul _ _ = NaN"

fun num_lt :: "number \<Rightarrow> number \<Rightarrow> bool" where
  "num_lt (Num a) (Num b) = (a < b)"
| "num_lt _ _ = False"

fun num_gt :: "number \<Rightarrow> number \<Rightarrow> bool" where
  "num_gt (Num a) (Num b) = (a > b)"
| "num_gt _ _ = False"

subsection \<open>Binary64\<close>

text \<open>
  The arithmetic of \<^verbatim>\<open>+\<close>, \<^verbatim>\<open>*\<close> and \<^verbatim>\<open>/\<close> on finite Numbers (ECMA-262,
  \<^verbatim>\<open>Number::add\<close>, \<^verbatim>\<open>Number::multiply\<close>, \<^verbatim>\<open>Number::divide\<close>): the exact result is
  replaced by the Number value for it, the binary64 value nearest to it, the one with
  an even significand when two are equally near (IEEE 754 roundTiesToEven).

  The finite binary64 values are the multiples \<open>k * 2^e\<close> of a power of two with
  \<open>\<bar>k\<bar> < 2^53\<close> and \<open>- 1074 \<le> e \<le> 971\<close>. Around \<open>x \<noteq> 0\<close>, with \<open>2^i \<le> \<bar>x\<bar> < 2^(i+1)\<close>,
  they are the multiples of \<open>2^(i - 52)\<close>, or of \<open>2^(- 1074)\<close> when \<open>x\<close> is subnormal
  (\<open>i - 52 < - 1074\<close>): the \<open>quantum\<close> of \<open>x\<close>. \<open>NumberValue x\<close> is the multiple of the
  quantum nearest to \<open>x\<close>. The exponent is not bounded from above here: where the
  Number value so computed has the magnitude \<open>2^1024\<close> or more, the code has an overflow
  to \<^verbatim>\<open>Infinity\<close>, which is not a value of the model; \<open>isNumber\<close> includes the bound.
  A division is by a positive Number wherever the module divides.
\<close>

type_synonym binary64 = rat

definition roundTiesToEven :: "rat \<Rightarrow> int" where
  "roundTiesToEven y =
     (let f = \<lfloor>y\<rfloor>; r = y - of_int f
      in if r < 1 / 2 then f else if 1 / 2 < r then f + 1 else if even f then f else f + 1)"

text \<open>
  The integer \<open>i\<close> with \<open>2^i \<le> \<bar>x\<bar> < 2^(i+1)\<close>, from the bit lengths of the numerator
  and the denominator of \<open>\<bar>x\<bar>\<close>.
\<close>

definition ilog2 :: "rat \<Rightarrow> int" where
  "ilog2 x =
     (let d = bitlen (fst (quotient_of \<bar>x\<bar>)) - bitlen (snd (quotient_of \<bar>x\<bar>))
      in if 2 powi d \<le> \<bar>x\<bar> then d else d - 1)"

definition emin :: int where
  "emin = - 1074"

definition quantum :: "rat \<Rightarrow> rat" where
  "quantum x = 2 powi (max (ilog2 x - 52) emin)"

definition NumberValue :: "rat \<Rightarrow> binary64" where
  "NumberValue x = (if x = 0 then 0 else of_int (roundTiesToEven (x / quantum x)) * quantum x)"

definition Number_add :: "binary64 \<Rightarrow> binary64 \<Rightarrow> binary64" where
  "Number_add a b = NumberValue (a + b)"

definition Number_multiply :: "binary64 \<Rightarrow> binary64 \<Rightarrow> binary64" where
  "Number_multiply a b = NumberValue (a * b)"

definition Number_divide :: "binary64 \<Rightarrow> binary64 \<Rightarrow> binary64" where
  "Number_divide a b = NumberValue (a / b)"

text \<open>
  The rationals that are finite Numbers; the sum of a list as a loop
  \<^verbatim>\<open>s = 0; for (x of xs) s += x\<close> computes it; and, for the proofs, the unit roundoff
  \<open>2^(- 53)\<close> and the multiples of the least positive Number \<open>2^(- 1074)\<close>.
\<close>

definition isNumber :: "rat \<Rightarrow> bool" where
  "isNumber x = (NumberValue x = x \<and> \<bar>x\<bar> < 2 ^ 1024)"

definition Number_sum :: "binary64 list \<Rightarrow> binary64" where
  "Number_sum xs = foldl Number_add 0 xs"

definition u64 :: rat where
  "u64 = 2 powi (- 53)"

definition onGrid :: "rat \<Rightarrow> bool" where
  "onGrid x = (\<exists>k::int. x = of_int k * 2 powi emin)"

subsection \<open>Numbers as strings\<close>

text \<open>
  \<^verbatim>\<open>String(n)\<close> and \<^verbatim>\<open>n.toString()\<close> of an integer are its decimal digits, with a
  leading minus sign below zero; of \<^verbatim>\<open>NaN\<close>, the string \<^verbatim>\<open>NaN\<close>. (Above \<open>10^21\<close>
  JavaScript switches to exponent notation; no year or month comes near it.)
\<close>

definition digitChar :: "nat \<Rightarrow> char" where
  "digitChar n = char_of (48 + n)"

fun digits :: "nat \<Rightarrow> string" where
  "digits n = (if n < 10 then [digitChar n] else digits (n div 10) @ [digitChar (n mod 10)])"

declare digits.simps [simp del]

definition Number_toString :: "number \<Rightarrow> string" where
  "Number_toString n =
     (case n of
        NaN \<Rightarrow> ''NaN''
      | Num i \<Rightarrow> if i < 0 then CHR ''-'' # digits (nat (- i)) else digits (nat i))"

text \<open>\<^verbatim>\<open>s.padStart(n, c)\<close> for a one-character \<open>c\<close>.\<close>

definition padStart :: "nat \<Rightarrow> char \<Rightarrow> string \<Rightarrow> string" where
  "padStart n c s = replicate (n - length s) c @ s"

subsection \<open>parseInt\<close>

text \<open>
  \<^verbatim>\<open>parseInt(string)\<close> with no radix, after ECMA-262: strip the leading white space, read
  an optional sign, then an optional \<^verbatim>\<open>0x\<close>/\<^verbatim>\<open>0X\<close> (radix 16, else radix 10), and take
  the longest run of digits of that radix; no digit gives \<^verbatim>\<open>NaN\<close>. What follows the
  digits is ignored.

  \<open>StrWhiteSpaceChar\<close> lists the white space and line terminator code points in UTF-8:
  TAB, LF, VT, FF, CR, SP, U+00A0, U+1680, U+2000 to U+200A, U+2028, U+2029, U+202F,
  U+205F, U+3000 and U+FEFF.
\<close>

definition StrWhiteSpaceChar :: "string list" where
  "StrWhiteSpaceChar =
     [[CHR 0x09], [CHR 0x0A], [CHR 0x0B], [CHR 0x0C], [CHR 0x0D], [CHR 0x20],
      [CHR 0xC2, CHR 0xA0], [CHR 0xE1, CHR 0x9A, CHR 0x80]] @
     map (\<lambda>b. [CHR 0xE2, CHR 0x80, b])
       [CHR 0x80, CHR 0x81, CHR 0x82, CHR 0x83, CHR 0x84, CHR 0x85, CHR 0x86, CHR 0x87,
        CHR 0x88, CHR 0x89, CHR 0x8A, CHR 0xA8, CHR 0xA9, CHR 0xAF] @
     [[CHR 0xE2, CHR 0x81, CHR 0x9F], [CHR 0xE3, CHR 0x80, CHR 0x80],
      [CHR 0xEF, CHR 0xBB, CHR 0xBF]]"

definition leadingWhiteSpace :: "string \<Rightarrow> nat" where
  "leadingWhiteSpace s =
     (case find (\<lambda>w. prefix w s) StrWhiteSpaceChar of None \<Rightarrow> 0 | Some w \<Rightarrow> length w)"

function trimStart :: "string \<Rightarrow> string" where
  "trimStart s =
     (if leadingWhiteSpace s = 0 then s else trimStart (drop (leadingWhiteSpace s) s))"
  by pat_completeness auto
termination
proof (relation "measure length")
  show "wf (measure length)" by simp
next
  fix s :: string
  assume "leadingWhiteSpace s \<noteq> 0"
  then obtain w where "find (\<lambda>w. prefix w s) StrWhiteSpaceChar = Some w" and "w \<noteq> []"
    by (auto simp: leadingWhiteSpace_def split: option.splits)
  then have "prefix w s"
    by (auto simp: find_Some_iff)
  with \<open>w \<noteq> []\<close> have "s \<noteq> []"
    by auto
  with \<open>leadingWhiteSpace s \<noteq> 0\<close> show "(drop (leadingWhiteSpace s) s, s) \<in> measure length"
    by simp
qed

definition digitValue :: "char \<Rightarrow> nat option" where
  "digitValue c =
     (let n = (of_char c :: nat) in
      if 48 \<le> n \<and> n \<le> 57 then Some (n - 48)
      else if 97 \<le> n \<and> n \<le> 122 then Some (n - 87)
      else if 65 \<le> n \<and> n \<le> 90 then Some (n - 55)
      else None)"

definition radixDigit :: "nat \<Rightarrow> char \<Rightarrow> bool" where
  "radixDigit R c = (case digitValue c of None \<Rightarrow> False | Some v \<Rightarrow> v < R)"

definition mathInt :: "nat \<Rightarrow> string \<Rightarrow> nat" where
  "mathInt R Z =
     foldl (\<lambda>a c. a * R + (case digitValue c of None \<Rightarrow> 0 | Some v \<Rightarrow> v)) 0 Z"

definition parseInt :: "string \<Rightarrow> number" where
  "parseInt string =
     (let S = trimStart string;
          sign = (if S \<noteq> [] \<and> hd S = CHR ''-'' then - 1 else 1 :: int);
          S = (if S \<noteq> [] \<and> (hd S = CHR ''+'' \<or> hd S = CHR ''-'') then tl S else S);
          stripPrefix = (prefix ''0x'' S \<or> prefix ''0X'' S);
          R = (if stripPrefix then 16 else 10);
          S = (if stripPrefix then drop 2 S else S);
          Z = takeWhile (radixDigit R) S
      in if Z = [] then NaN else Num (sign * int (mathInt R Z)))"

subsection \<open>Types (types.ts) and constants (constants.ts)\<close>

text \<open>
  The interfaces \<^verbatim>\<open>FilterState\<close>, \<^verbatim>\<open>CategoryRule\<close>, \<^verbatim>\<open>RawSalesData\<close>,
  \<^verbatim>\<open>ProcessedSalesData\<close>, \<^verbatim>\<open>ChartDataPoint\<close> and \<^verbatim>\<open>TrendDataPoint\<close> of \<^verbatim>\<open>types.ts\<close>, field
  by field as they are declared there (among the sources, the text of \<^verbatim>\<open>types.ts\<close>
  follows that of \<^verbatim>\<open>services/geminiService.ts\<close>). The fields of type \<^verbatim>\<open>string\<close> are
  strings;
  \<^verbatim>\<open>quantity\<close>, \<^verbatim>\<open>amount\<close>, \<^verbatim>\<open>value\<close> and \<^verbatim>\<open>percentage\<close>, of type \<^verbatim>\<open>number\<close>, are binary64
  values; \<^verbatim>\<open>year\<close> and \<^verbatim>\<open>month\<close>, of type \<^verbatim>\<open>number\<close> too, are an integer or \<^verbatim>\<open>NaN\<close>, which
  is what \<^verbatim>\<open>processData\<close> stores in them.

  Several interfaces share field names (\<^verbatim>\<open>department\<close>, \<^verbatim>\<open>category\<close> and others). The
  records are declared so that an unqualified field name is the one of the sales record;
  the fields of the other records are written with the record's name in front.
\<close>

record FilterState =
  startYear :: string
  startMonth :: string
  endYear :: string
  endMonth :: string
  businessUnit :: string
  department :: string
  salesperson :: string
  category :: string
  subCategory :: string
  customerName :: string
  productName :: string

record CategoryRule =
  keyword :: string
  category :: string
  subCategory :: string

text \<open>
  \<^verbatim>\<open>constants.ts\<close> is not among the sources: the rule table and the default pair it
  exports are parameters of the model, and every theorem holds for all of them.
\<close>

record Constants =
  CATEGORY_RULES :: "CategoryRule list"
  DEFAULT_CATEGORY :: string
  DEFAULT_SUB_CATEGORY :: string

subsection \<open>Chart points\<close>

text \<open>
  A dictionary with string keys and Number values (a \<^verbatim>\<open>Map<string, number>\<close>, or an
  object used as a \<^verbatim>\<open>Record<string, number>\<close>) is the list of its entries in insertion
  order.

  A \<^verbatim>\<open>ChartDataPoint\<close> has the fields \<^verbatim>\<open>name\<close>, \<^verbatim>\<open>value\<close> (\<open>value'\<close> here) and
  \<^verbatim>\<open>percentage\<close>, which \<^verbatim>\<open>aggregateByField\<close> always sets. A \<^verbatim>\<open>TrendDataPoint\<close> is an
  object with the key \<^verbatim>\<open>month\<close> and one key per year; the year keys, which are decimal
  numerals and so never the word \<^verbatim>\<open>month\<close>, are kept apart in \<open>byYear\<close>.
\<close>

type_synonym NumberMap = "(string \<times> binary64) list"

record ChartDataPoint =
  name :: string
  value' :: binary64
  percentage :: binary64

record TrendDataPoint =
  month :: string
  byYear :: NumberMap

subsection \<open>Sales records\<close>

record RawSalesData =
  businessUnit :: string
  department :: string
  salesperson :: string
  date :: string
  customerName :: string
  companyName :: string
  sku :: string
  productName :: string
  quantity :: binary64
  amount :: binary64

record ProcessedSalesData = RawSalesData +
  category :: string
  subCategory :: string
  year :: number
  month :: number

subsection \<open>mapProductCategory\<close>

text \<open>
  The \<^verbatim>\<open>for (const rule of CATEGORY_RULES)\<close> loop, with its \<^verbatim>\<open>return\<close> inside and the
  default \<^verbatim>\<open>return\<close> after it. The returned object \<^verbatim>\<open>{category, subCategory}\<close> is the
  pair of its two fields.
\<close>

fun scanRules :: "CategoryRule list \<Rightarrow> string \<times> string \<Rightarrow> string \<Rightarrow> string \<times> string" where
  "scanRules [] dflt pname = dflt"
| "scanRules (rule # rest) dflt pname =
     (if str_includes pname (keyword rule)
      then (CategoryRule.category rule, CategoryRule.subCategory rule)
      else scanRules rest dflt pname)"

definition mapProductCategory :: "Constants \<Rightarrow> string \<Rightarrow> string \<times> string" where
  "mapProductCategory C pname =
     scanRules (CATEGORY_RULES C) (DEFAULT_CATEGORY C, DEFAULT_SUB_CATEGORY C) pname"

subsection \<open>Date\<close>

text \<open>
  \<^verbatim>\<open>new Date(item.date)\<close>, \<^verbatim>\<open>getFullYear()\<close> and \<^verbatim>\<open>getMonth()\<close> after ECMA-262
  (section 21.4). A Date holds a time value: milliseconds since 1970-01-01T00:00Z, or
  \<^verbatim>\<open>NaN\<close>. A string of the date-only form \<^verbatim>\<open>YYYY-MM-DD\<close> is read as that day's
  midnight \<^emph>\<open>in UTC\<close>; \<^verbatim>\<open>getFullYear\<close> and \<^verbatim>\<open>getMonth\<close> report the year and month of
  the \<^emph>\<open>local\<close> time \<open>t + LocalTZA(t)\<close>.

  Two things belong to the host and are parameters: the offset \<open>LocalTZA\<close> of local time
  from UTC (in milliseconds, for each UTC time value), and \<open>parseOther\<close>, the result of
  \<^verbatim>\<open>Date.parse\<close> on every string that is not a date-only form with a day that exists
  (the forms with a time, and the fallback formats that ECMA-262 leaves to the
  implementation).
\<close>

record Host =
  LocalTZA :: "int \<Rightarrow> int"
  parseOther :: "string \<Rightarrow> number"

definition msPerDay :: int where
  "msPerDay = 86400000"

definition Day :: "int \<Rightarrow> int" where
  "Day t = t div msPerDay"

definition DaysInYear :: "int \<Rightarrow> int" where
  "DaysInYear y =
     (if y mod 4 \<noteq> 0 then 365 else if y mod 100 \<noteq> 0 then 366
      else if y mod 400 \<noteq> 0 then 365 else 366)"

definition DayFromYear :: "int \<Rightarrow> int" where
  "DayFromYear y =
     365 * (y - 1970) + (y - 1969) div 4 - (y - 1901) div 100 + (y - 1601) div 400"

definition TimeFromYear :: "int \<Rightarrow> int" where
  "TimeFromYear y = msPerDay * DayFromYear y"

text \<open>
  \<^verbatim>\<open>YearFromTime(t)\<close> is the largest year \<open>y\<close> with \<open>TimeFromYear(y) \<le> t\<close>. It is
  computed by stepping down from a year that is not too small: every year has at least
  365 and at most 366 days.
\<close>

function yearDown :: "int \<Rightarrow> int \<Rightarrow> int" where
  "yearDown y d = (if DayFromYear y \<le> d then y else yearDown (y - 1) d)"
  by pat_completeness auto
termination
proof (relation "measure (\<lambda>(y, d). nat (DayFromYear y - d))")
  show "wf (measure (\<lambda>(y, d). nat (DayFromYear y - d)))" by simp
next
  fix y d :: int
  assume later: "\<not> DayFromYear y \<le> d"
  have "(y - 1 - 1969) div 4 \<le> (y - 1969) div 4"
    by (rule zdiv_mono1) simp_all
  moreover have "(y - 1 - 1601) div 400 \<le> (y - 1601) div 400"
    by (rule zdiv_mono1) simp_all
  moreover have "(y - 1901) div 100 \<le> (y - 1 - 1901 + 100) div 100"
    by (rule zdiv_mono1) simp_all
  then have "(y - 1901) div 100 \<le> (y - 1 - 1901) div 100 + 1"
    by simp
  moreover have "365 * (y - 1 - 1970) + A' - B' + C' < 365 * (y - 1970) + A - B + C"
    if "A' \<le> A" "C' \<le> C" "B \<le> B' + 1" for A A' B B' C C' :: int
    using that by (simp add: algebra_simps)
  ultimately have "DayFromYear (y - 1) < DayFromYear y"
    unfolding DayFromYear_def by blast
  with later show "((y - 1, d), (y, d)) \<in> measure (\<lambda>(y, d). nat (DayFromYear y - d))"
    by simp
qed

declare yearDown.simps [simp del]

definition YearFromTime :: "int \<Rightarrow> int" where
  "YearFromTime t =
     (let d = Day t
      in yearDown (1970 + (if 0 \<le> d then d div 365 else d div 366)) d)"

definition InLeapYear :: "int \<Rightarrow> int" where
  "InLeapYear t = (if DaysInYear (YearFromTime t) = 366 then 1 else 0)"

definition DayWithinYear :: "int \<Rightarrow> int" where
  "DayWithinYear t = Day t - DayFromYear (YearFromTime t)"

definition MonthFromTime :: "int \<Rightarrow> int" where
  "MonthFromTime t =
     (let d = DayWithinYear t; leap = InLeapYear t
      in if d < 31 then 0
         else if d < 59 + leap then 1
         else if d < 90 + leap then 2
         else if d < 120 + leap then 3
         else if d < 151 + leap then 4
         else if d < 181 + leap then 5
         else if d < 212 + leap then 6
         else if d < 243 + leap then 7
         else if d < 273 + leap then 8
         else if d < 304 + leap then 9
         else if d < 334 + leap then 10
         else 11)"

text \<open>
  \<^verbatim>\<open>MakeDay(year, month, date)\<close>: the day number of the first of the month (month
  counted from 0, and carried into the year), plus \<open>date - 1\<close>.
\<close>

definition daysBeforeMonth :: "int \<Rightarrow> int \<Rightarrow> int" where
  "daysBeforeMonth y mn =
     [0, 31, 59, 90, 120, 151, 181, 212, 243, 273, 304, 334] ! nat mn
       + (if 2 \<le> mn \<and> DaysInYear y = 366 then 1 else 0)"

definition MakeDay :: "int \<Rightarrow> int \<Rightarrow> int \<Rightarrow> int" where
  "MakeDay y m dt =
     (let ym = y + m div 12; mn = m mod 12
      in DayFromYear ym + daysBeforeMonth ym mn + dt - 1)"

definition MakeDate :: "int \<Rightarrow> int \<Rightarrow> int" where
  "MakeDate day time = day * msPerDay + time"

definition TimeClip :: "number \<Rightarrow> number" where
  "TimeClip time =
     (case time of NaN \<Rightarrow> NaN
      | Num t \<Rightarrow> if \<bar>t\<bar> > 8640000000000000 then NaN else Num t)"

definition DaysInMonth :: "int \<Rightarrow> int \<Rightarrow> int" where
  "DaysInMonth y m =
     (if m = 2 then DaysInYear y - 337
      else if m = 4 \<or> m = 6 \<or> m = 9 \<or> m = 11 then 30 else 31)"

text \<open>The date-only form: four digits, a hyphen, two digits, a hyphen, two digits.\<close>

definition parseDateOnly :: "string \<Rightarrow> (int \<times> int \<times> int) option" where
  "parseDateOnly s =
     (if length s = 10 \<and> s ! 4 = CHR ''-'' \<and> s ! 7 = CHR ''-'' \<and>
         list_all (radixDigit 10) (take 4 s @ take 2 (drop 5 s) @ drop 8 s)
      then Some (int (mathInt 10 (take 4 s)), int (mathInt 10 (take 2 (drop 5 s))),
                 int (mathInt 10 (drop 8 s)))
      else None)"

definition Date_parse :: "Host \<Rightarrow> string \<Rightarrow> number" where
  "Date_parse host s =
     (case parseDateOnly s of
        None \<Rightarrow> parseOther host s
      | Some (y, m, d) \<Rightarrow>
          if 1 \<le> m \<and> m \<le> 12 \<and> 1 \<le> d \<and> d \<le> DaysInMonth y m
          then Num (MakeDate (MakeDay y (m - 1) d) 0)
          else parseOther host s)"

definition newDate :: "Host \<Rightarrow> string \<Rightarrow> number" where
  "newDate host s = TimeClip (Date_parse host s)"

definition LocalTime :: "Host \<Rightarrow> int \<Rightarrow> int" where
  "LocalTime host t = t + LocalTZA host t"

definition getFullYear :: "Host \<Rightarrow> number \<Rightarrow> number" where
  "getFullYear host dateObj =
     (case dateObj of NaN \<Rightarrow> NaN | Num t \<Rightarrow> Num (YearFromTime (LocalTime host t)))"

definition getMonth :: "Host \<Rightarrow> number \<Rightarrow> number" where
  "getMonth host dateObj =
     (case dateObj of NaN \<Rightarrow> NaN | Num t \<Rightarrow> Num (MonthFromTime (LocalTime host t)))"

subsection \<open>processData\<close>

text \<open>
  The callback of \<^verbatim>\<open>rawData.map\<close>. The object \<^verbatim>\<open>{...item, category, subCategory, year,
  month}\<close> is the raw record extended by the four new fields.
\<close>

definition processItem :: "Host \<Rightarrow> Constants \<Rightarrow> RawSalesData \<Rightarrow> ProcessedSalesData" where
  "processItem host C item =
     (let cs = mapProductCategory C (productName item);
          dateObj = newDate host (date item)
      in RawSalesData.extend item
           (ProcessedSalesData.fields (fst cs) (snd cs)
              (getFullYear host dateObj) (num_add (getMonth host dateObj) (Num 1))))"

definition processData :: "Host \<Rightarrow> Constants \<Rightarrow> RawSalesData list \<Rightarrow> ProcessedSalesData list" where
  "processData host C rawData = map (processItem host C) rawData"

subsection \<open>filterData\<close>

text \<open>
  The callback of \<^verbatim>\<open>data.filter\<close>, in the order of its \<^verbatim>\<open>return false\<close> statements:
  the date range (\<open>outsideDateRange\<close>), then the department constraint, the five
  facets and the two text searches (\<open>passesOtherTests\<close>). The optional parameter
  \<^verbatim>\<open>deptConstraint?: string\<close> is a \<^typ>\<open>string option\<close>; \<^verbatim>\<open>undefined\<close> and the empty
  string both count as false in \<^verbatim>\<open>deptConstraint && ...\<close>.
\<close>

definition itemDateVal :: "ProcessedSalesData \<Rightarrow> number" where
  "itemDateVal item = num_add (num_mul (year item) (Num 100)) (month item)"

definition startDateVal :: "FilterState \<Rightarrow> number" where
  "startDateVal filters =
     num_add (num_mul (parseInt (startYear filters)) (Num 100)) (parseInt (startMonth filters))"

definition endDateVal :: "FilterState \<Rightarrow> number" where
  "endDateVal filters =
     num_add (num_mul (parseInt (endYear filters)) (Num 100)) (parseInt (endMonth filters))"

definition outsideDateRange :: "FilterState \<Rightarrow> ProcessedSalesData \<Rightarrow> bool" where
  "outsideDateRange filters item =
     (num_lt (itemDateVal item) (startDateVal filters) \<or>
      num_gt (itemDateVal item) (endDateVal filters))"

definition passesOtherTests :: "FilterState \<Rightarrow> string option \<Rightarrow> ProcessedSalesData \<Rightarrow> bool" where
  "passesOtherTests filters deptConstraint item =
     (if (case deptConstraint of None \<Rightarrow> False | Some c \<Rightarrow> truthy c \<and> department item \<noteq> c)
      then False
      else if truthy (FilterState.businessUnit filters) \<and>
          FilterState.businessUnit filters \<noteq> ''All'' \<and>
          businessUnit item \<noteq> FilterState.businessUnit filters then False
      else if truthy (FilterState.department filters) \<and>
          FilterState.department filters \<noteq> ''All'' \<and>
          department item \<noteq> FilterState.department filters then False
      else if truthy (FilterState.salesperson filters) \<and>
          FilterState.salesperson filters \<noteq> ''All'' \<and>
          salesperson item \<noteq> FilterState.salesperson filters then False
      else if truthy (FilterState.category filters) \<and>
          FilterState.category filters \<noteq> ''All'' \<and>
          category item \<noteq> FilterState.category filters then False
      else if truthy (FilterState.subCategory filters) \<and>
          FilterState.subCategory filters \<noteq> ''All'' \<and>
          subCategory item \<noteq> FilterState.subCategory filters then False
      else if truthy (FilterState.customerName filters) \<and>
          \<not> str_includes (customerName item) (FilterState.customerName filters) then False
      else if truthy (FilterState.productName filters) \<and>
          \<not> str_includes (productName item) (FilterState.productName filters) then False
      else True)"

definition keeps :: "FilterState \<Rightarrow> string option \<Rightarrow> ProcessedSalesData \<Rightarrow> bool" where
  "keeps filters deptConstraint item =
     (if outsideDateRange filters item then False
      else passesOtherTests filters deptConstraint item)"

definition filterData ::
    "ProcessedSalesData list \<Rightarrow> FilterState \<Rightarrow> string option \<Rightarrow> ProcessedSalesData list" where
  "filterData data filters deptConstraint = filter (keeps filters deptConstraint) data"

subsection \<open>aggregateByField\<close>

text \<open>
  \<^verbatim>\<open>field: keyof ProcessedSalesData\<close> names one of the fourteen fields, and the key of a
  record is \<^verbatim>\<open>String(d[field])\<close>. For \<^verbatim>\<open>quantity\<close> and \<^verbatim>\<open>amount\<close> the digits of
  \<^verbatim>\<open>String\<close> are the shortest decimal that reads back as the binary64 value
  (\<^verbatim>\<open>Number::toString\<close>), which is not modelled: the conversion \<open>toStr\<close> of these two is
  a parameter, and the theorems hold for every choice.
\<close>

datatype Field =
    F_businessUnit | F_department | F_salesperson | F_date | F_customerName
  | F_companyName | F_sku | F_productName | F_quantity | F_amount
  | F_category | F_subCategory | F_year | F_month

fun fieldString :: "(binary64 \<Rightarrow> string) \<Rightarrow> Field \<Rightarrow> ProcessedSalesData \<Rightarrow> string" where
  "fieldString toStr F_businessUnit d = businessUnit d"
| "fieldString toStr F_department d = department d"
| "fieldString toStr F_salesperson d = salesperson d"
| "fieldString toStr F_date d = date d"
| "fieldString toStr F_customerName d = customerName d"
| "fieldString toStr F_companyName d = companyName d"
| "fieldString toStr F_sku d = sku d"
| "fieldString toStr F_productName d = productName d"
| "fieldString toStr F_quantity d = toStr (quantity d)"
| "fieldString toStr F_amount d = toStr (amount d)"
| "fieldString toStr F_category d = category d"
| "fieldString toStr F_subCategory d = subCategory d"
| "fieldString toStr F_year d = Number_toString (year d)"
| "fieldString toStr F_month d = Number_toString (month d)"

text \<open>
  Reading and writing a dictionary: \<^verbatim>\<open>map.get(k)\<close> and \<^verbatim>\<open>obj[k]\<close> are
  \<^verbatim>\<open>undefined\<close> (\<open>None\<close>) for a key that is absent; \<^verbatim>\<open>map.set(k, v)\<close> and
  \<^verbatim>\<open>obj[k] = v\<close> overwrite the value of a key that is present, where it stands, and
  append a new key. In \<^verbatim>\<open>x || 0\<close> both \<^verbatim>\<open>undefined\<close> and \<open>0\<close> are false and give \<open>0\<close>.
\<close>

definition Map_get :: "(string \<times> 'v) list \<Rightarrow> string \<Rightarrow> 'v option" where
  "Map_get m k = map_of m k"

fun Map_set :: "string \<Rightarrow> 'v \<Rightarrow> (string \<times> 'v) list \<Rightarrow> (string \<times> 'v) list" where
  "Map_set k v [] = [(k, v)]"
| "Map_set k v (e # m) = (if fst e = k then (k, v) # m else e # Map_set k v m)"

definition orZero :: "binary64 option \<Rightarrow> binary64" where
  "orZero x = (case x of None \<Rightarrow> 0 | Some v \<Rightarrow> if v = 0 then 0 else v)"

text \<open>
  The body of \<^verbatim>\<open>data.forEach\<close>, on the pair of the map and the running total: both
  \<^verbatim>\<open>(map.get(key) || 0) + val\<close> and \<^verbatim>\<open>total += val\<close> are binary64 additions.
\<close>

definition aggregateStep ::
    "(binary64 \<Rightarrow> string) \<Rightarrow> Field \<Rightarrow> NumberMap \<times> binary64 \<Rightarrow> ProcessedSalesData \<Rightarrow>
     NumberMap \<times> binary64" where
  "aggregateStep toStr field s d =
     (let key = fieldString toStr field d;
          val = amount d
      in (Map_set key (Number_add (orZero (Map_get (fst s) key)) val) (fst s),
          Number_add (snd s) val))"

text \<open>
  The percentage \<^verbatim>\<open>(value / total) * 100\<close> is a binary64 division followed by a binary64
  multiplication. \<^verbatim>\<open>Array.prototype.sort\<close> is stable, and the comparator
  \<^verbatim>\<open>b.value - a.value\<close> puts the larger value first: the difference of two Numbers is
  rounded, but it is positive, zero or negative as the exact difference is, so that the
  sort is the stable insertion sort \<^const>\<open>sort_key\<close> on the negated value.
\<close>

definition aggregateByField ::
    "(binary64 \<Rightarrow> string) \<Rightarrow> ProcessedSalesData list \<Rightarrow> Field \<Rightarrow> ChartDataPoint list" where
  "aggregateByField toStr data field =
     (let s = foldl (aggregateStep toStr field) ([], 0) data;
          total = snd s
      in sort_key (\<lambda>p. - value' p)
           (map (\<lambda>e. \<lparr>name = fst e, value' = snd e,
                       percentage = (if total > 0
                                     then Number_multiply (Number_divide (snd e) total) 100
                                     else 0)\<rparr>)
              (fst s)))"

subsection \<open>getTrendData\<close>

text \<open>
  \<^verbatim>\<open>monthlyMap[mStr][yStr]\<close> throws a \<^verbatim>\<open>TypeError\<close> when \<^verbatim>\<open>monthlyMap[mStr]\<close> is
  \<^verbatim>\<open>undefined\<close>, which ends \<^verbatim>\<open>getTrendData\<close>. The comparator \<^verbatim>\<open>a - b\<close> of the year sort
  is \<^verbatim>\<open>NaN\<close> on a \<^verbatim>\<open>NaN\<close> year; with two or more other years it is then no consistent
  order and ECMA-262 leaves the result of \<^verbatim>\<open>sort\<close> to the implementation, which the
  model reports as \<open>UnspecifiedOrder\<close> rather than choosing one.
\<close>

datatype error = TypeError | UnspecifiedOrder

text \<open>\<^verbatim>\<open>yearsFound.add(y)\<close>: a \<^verbatim>\<open>Set\<close> keeps its members in insertion order.\<close>

definition Set_add :: "number \<Rightarrow> number list \<Rightarrow> number list" where
  "Set_add y ys = (if y \<in> set ys then ys else ys @ [y])"

text \<open>The first loop: \<^verbatim>\<open>monthlyMap[mStr] = {}\<close> for \<open>m\<close> from 1 to 12.\<close>

definition monthKey :: "number \<Rightarrow> string" where
  "monthKey m = padStart 2 (CHR ''0'') (Number_toString m)"

definition initMonthlyMap :: "(string \<times> NumberMap) list" where
  "initMonthlyMap = foldl (\<lambda>monthlyMap m. Map_set (monthKey (Num m)) [] monthlyMap) [] [1..12]"

text \<open>
  The body of \<^verbatim>\<open>data.forEach\<close>, on the pair of \<^verbatim>\<open>yearsFound\<close> and \<^verbatim>\<open>monthlyMap\<close>.
  After the statement \<^verbatim>\<open>if (!monthlyMap[mStr][yStr]) monthlyMap[mStr][yStr] = 0\<close> the
  cell is defined, and \<^verbatim>\<open>+=\<close> reads it and adds to it in binary64.
\<close>

definition trendStep ::
    "number list \<times> (string \<times> NumberMap) list \<Rightarrow> ProcessedSalesData \<Rightarrow>
     error + number list \<times> (string \<times> NumberMap) list" where
  "trendStep s d =
     (let mStr = monthKey (month d);
          yStr = Number_toString (year d);
          yearsFound = Set_add (year d) (fst s)
      in case Map_get (snd s) mStr of
           None \<Rightarrow> Inl TypeError
         | Some row \<Rightarrow>
             let row1 = (if orZero (Map_get row yStr) = 0 then Map_set yStr 0 row else row);
                 row2 = Map_set yStr (Number_add (orZero (Map_get row1 yStr)) (amount d)) row1
             in Inr (yearsFound, Map_set mStr row2 (snd s)))"

fun forEachTrend ::
    "number list \<times> (string \<times> NumberMap) list \<Rightarrow> ProcessedSalesData list \<Rightarrow>
     error + number list \<times> (string \<times> NumberMap) list" where
  "forEachTrend s [] = Inr s"
| "forEachTrend s (d # ds) =
     (case trendStep s d of Inl e \<Rightarrow> Inl e | Inr s' \<Rightarrow> forEachTrend s' ds)"

text \<open>
  \<^verbatim>\<open>Array.from(yearsFound).sort((a, b) => a - b)\<close>: stable and ascending on integers. A
  lone \<^verbatim>\<open>NaN\<close>, or a \<^verbatim>\<open>NaN\<close> and one year, compare as equal and stay as they are.
\<close>

fun intOf :: "number \<Rightarrow> int" where
  "intOf (Num i) = i"
| "intOf NaN = 0"

definition sortYears :: "number list \<Rightarrow> error + number list" where
  "sortYears ys =
     (if NaN \<in> set ys then (if length ys \<le> 2 then Inr ys else Inl UnspecifiedOrder)
      else Inr (sort_key intOf ys))"

text \<open>
  \<^verbatim>\<open>Object.keys\<close> lists the keys that are array indices (canonical decimal numerals
  below \<open>2^32 - 1\<close>) first, in ascending numeric order, and then the other keys in
  insertion order: of the month keys, \<^verbatim>\<open>10\<close>, \<^verbatim>\<open>11\<close> and \<^verbatim>\<open>12\<close> come before \<^verbatim>\<open>01\<close>.
  The \<^verbatim>\<open>sort()\<close> that follows has no comparator and orders the keys as strings.
\<close>

definition isArrayIndex :: "string \<Rightarrow> bool" where
  "isArrayIndex k =
     (k \<noteq> [] \<and> list_all (radixDigit 10) k \<and> (k = ''0'' \<or> hd k \<noteq> CHR ''0'') \<and>
      int (mathInt 10 k) < 4294967295)"

definition Object_keys :: "(string \<times> 'v) list \<Rightarrow> string list" where
  "Object_keys obj =
     sort_key (mathInt 10) (filter isArrayIndex (map fst obj)) @
     filter (\<lambda>k. \<not> isArrayIndex k) (map fst obj)"

text \<open>
  The point of one month: its \<^verbatim>\<open>month\<close> is the month key followed by the character
  U+6708 (the template literal of the source; three bytes in UTF-8), then
  \<^verbatim>\<open>point[year] = monthlyMap[month][year] || 0\<close> for each sorted year. The
  month is one of the keys of \<^verbatim>\<open>monthlyMap\<close>, so \<^verbatim>\<open>monthlyMap[month]\<close> is defined.
\<close>

definition monthLabel :: "string \<Rightarrow> string" where
  "monthLabel m = m @ [CHR 0xE6, CHR 0x9C, CHR 0x88]"

definition trendPoint :: "(string \<times> NumberMap) list \<Rightarrow> string list \<Rightarrow> string \<Rightarrow> TrendDataPoint" where
  "trendPoint monthlyMap sortedYears m =
     (let row = (case Map_get monthlyMap m of None \<Rightarrow> [] | Some r \<Rightarrow> r)
      in \<lparr>TrendDataPoint.month = monthLabel m,
          byYear = foldl (\<lambda>point y. Map_set y (orZero (Map_get row y)) point) [] sortedYears\<rparr>)"

definition getTrendData ::
    "ProcessedSalesData list \<Rightarrow> error + TrendDataPoint list \<times> string list" where
  "getTrendData data =
     (case forEachTrend ([], initMonthlyMap) data of
        Inl e \<Rightarrow> Inl e
      | Inr s \<Rightarrow>
          (case sortYears (fst s) of
             Inl e \<Rightarrow> Inl e
           | Inr ys \<Rightarrow>
               let sortedYears = map Number_toString ys;
                   chartData = map (trendPoint (snd s) sortedYears) (sort (Object_keys (snd s)))
               in Inr (chartData, sortedYears)))"

subsection \<open>Notions for the proofs about getTrendData\<close>

text \<open>
  The twelve month keys; the content of the cell of month key \<open>k\<close> and year key \<open>y\<close>
  as \<^verbatim>\<open>monthlyMap[k][y] || 0\<close> reads it; and the amounts of the records whose keys are
  \<open>k\<close> and \<open>y\<close>, added up in the order of the input.
\<close>

definition monthKeys :: "string list" where
  "monthKeys = [''01'', ''02'', ''03'', ''04'', ''05'', ''06'',
                ''07'', ''08'', ''09'', ''10'', ''11'', ''12'']"

definition cell :: "(string \<times> NumberMap) list \<Rightarrow> string \<Rightarrow> string \<Rightarrow> binary64" where
  "cell monthlyMap k y =
     orZero (Map_get (case Map_get monthlyMap k of None \<Rightarrow> [] | Some r \<Rightarrow> r) y)"

definition cellSum :: "ProcessedSalesData list \<Rightarrow> string \<Rightarrow> string \<Rightarrow> binary64" where
  "cellSum data k y =
     Number_sum (map amount
       (filter (\<lambda>d. monthKey (month d) = k \<and> Number_toString (year d) = y) data))"

subsection \<open>Sample data for the worked instances\<close>

definition sampleSale ::
    "string \<Rightarrow> string \<Rightarrow> string \<Rightarrow> int \<Rightarrow> int \<Rightarrow> binary64 \<Rightarrow> ProcessedSalesData" where
  "sampleSale dept pname d y m amt =
     \<lparr>businessUnit = ''East'', department = dept, salesperson = ''Li'', date = d,
      customerName = ''Acme Foods'', companyName = ''Acme Group'', sku = ''SKU-1'',
      productName = pname, quantity = 1, amount = amt,
      category = ''Other'', subCategory = ''Other'', year = Num y, month = Num m\<rparr>"

definition sampleFilters :: "string \<Rightarrow> string \<Rightarrow> string \<Rightarrow> string \<Rightarrow> string \<Rightarrow> FilterState" where
  "sampleFilters sy sm ey em dept =
     \<lparr>startYear = sy, startMonth = sm, endYear = ey, endMonth = em,
      FilterState.businessUnit = ''All'', FilterState.department = dept,
      FilterState.salesperson = ''All'', FilterState.category = ''All'',
      FilterState.subCategory = ''All'', FilterState.customerName = [],
      FilterState.productName = []\<rparr>"

text \<open>
  Four sales of 729.64, 174.56, 379.60 and 549.38, the third one of another department,
  and three entries of 0.1, 0.2 and \<open>- 0.3\<close> that cancel; each amount is the Number
  that the decimal numeral denotes.
\<close>

definition decimalSales :: "ProcessedSalesData list" where
  "decimalSales =
     [sampleSale ''Sales-A'' ''Soy'' ''2023-03-11'' 2023 3 (NumberValue (72964 / 100)),
      sampleSale ''Sales-A'' ''Soy'' ''2023-03-12'' 2023 3 (NumberValue (17456 / 100)),
      sampleSale ''Sales-B'' ''Oil'' ''2023-04-02'' 2023 4 (NumberValue (37960 / 100)),
      sampleSale ''Sales-A'' ''Soy'' ''2023-05-20'' 2023 5 (NumberValue (54938 / 100))]"


text \<open>
  A conversion for \<^verbatim>\<open>String(quantity)\<close> and \<^verbatim>\<open>String(amount)\<close>, which the instances below
  never call; a host five hours behind UTC and a host eight hours ahead of it, both
  reading no date format but the date-only one.
\<close>

definition sampleToStr :: "binary64 \<Rightarrow> string" where
  "sampleToStr q = []"

definition hostWest :: Host where
  "hostWest = \<lparr>LocalTZA = (\<lambda>t. - 18000000), parseOther = (\<lambda>s. NaN)\<rparr>"

definition hostEast :: Host where
  "hostEast = \<lparr>LocalTZA = (\<lambda>t. 28800000), parseOther = (\<lambda>s. NaN)\<rparr>"

definition sampleRaw :: "string \<Rightarrow> string \<Rightarrow> RawSalesData" where
  "sampleRaw d pname =
     \<lparr>businessUnit = ''East'', department = ''Sales-A'', salesperson = ''Li'', date = d,
      customerName = ''Acme Foods'', companyName = ''Acme Group'', sku = ''SKU-1'',
      productName = pname, quantity = 1, amount = 10\<rparr>"

definition sampleConstants :: Constants where
  "sampleConstants =
     \<lparr>CATEGORY_RULES =
        [\<lparr>keyword = ''Soy'', CategoryRule.category = ''Sauce'', CategoryRule.subCategory = ''Soy sauce''\<rparr>,
         \<lparr>keyword = ''Oil'', CategoryRule.category = ''Oil'', CategoryRule.subCategory = ''Cooking oil''\<rparr>],
      DEFAULT_CATEGORY = ''Other'', DEFAULT_SUB_CATEGORY = ''Misc''\<rparr>"

section \<open>Properties\<close>

subsection \<open>Substring search\<close>

lemma str_includes_sublist: "str_includes s k \<longleftrightarrow> sublist k s"
proof (induction s)
  case Nil
  show ?case by simp
next
  case (Cons c s)
  show ?case
  proof (cases k)
    case Nil
    then show ?thesis by simp
  next
    case (Cons d k')
    with Cons.IH show ?thesis by (simp add: sublist_Cons_right)
  qed
qed

lemma str_includes_iff: "str_includes s k \<longleftrightarrow> (\<exists>u v. s = u @ k @ v)"
  by (simp add: str_includes_sublist sublist_def)

subsection \<open>The classifier\<close>

lemma scanRules_no_match:
  "\<forall>r\<in>set rules. \<not> str_includes pname (keyword r) \<Longrightarrow> scanRules rules dflt pname = dflt"
  by (induction rules) simp_all

lemma scanRules_first_match:
  assumes "i < length rules"
    and "str_includes pname (keyword (rules ! i))"
    and "\<forall>j<i. \<not> str_includes pname (keyword (rules ! j))"
  shows "scanRules rules dflt pname =
    (CategoryRule.category (rules ! i), CategoryRule.subCategory (rules ! i))"
  using assms
proof (induction rules arbitrary: i)
  case Nil
  then show ?case by simp
next
  case (Cons r rules)
  show ?case
  proof (cases i)
    case 0
    with Cons.prems show ?thesis by simp
  next
    case (Suc n)
    from Cons.prems(3) Suc have head: "\<not> str_includes pname (keyword r)"
      by auto
    from Cons.prems(3) Suc have "\<forall>j<n. \<not> str_includes pname (keyword (rules ! j))"
      by auto
    with Cons.IH [of n] Cons.prems(1,2) Suc head show ?thesis
      by simp
  qed
qed

text \<open>
  C1. For every product name, \<^verbatim>\<open>mapProductCategory\<close> returns the pair of the first rule
  of \<^verbatim>\<open>CATEGORY_RULES\<close>, in list order, whose keyword is a substring of the pname (rule
  \<open>i\<close> matches and no rule before it does: nothing is asked of the keywords' lengths, nor
  of the rules after \<open>i\<close>); when no keyword is a substring it returns the default pair, as
  it does for the empty pname when no keyword is empty.
\<close>

theorem mapProductCategory_first_match_wins:
  "(\<forall>i<length (CATEGORY_RULES C).
      sublist (keyword (CATEGORY_RULES C ! i)) pname \<and>
      (\<forall>j<i. \<not> sublist (keyword (CATEGORY_RULES C ! j)) pname) \<longrightarrow>
      mapProductCategory C pname =
        (CategoryRule.category (CATEGORY_RULES C ! i),
         CategoryRule.subCategory (CATEGORY_RULES C ! i)))
   \<and> ((\<forall>r\<in>set (CATEGORY_RULES C). \<not> sublist (keyword r) pname) \<longrightarrow>
      mapProductCategory C pname = (DEFAULT_CATEGORY C, DEFAULT_SUB_CATEGORY C))
   \<and> ((\<forall>r\<in>set (CATEGORY_RULES C). keyword r \<noteq> []) \<longrightarrow>
      mapProductCategory C [] = (DEFAULT_CATEGORY C, DEFAULT_SUB_CATEGORY C))"
proof (intro conjI allI impI)
  fix i
  assume "i < length (CATEGORY_RULES C)"
    and "sublist (keyword (CATEGORY_RULES C ! i)) pname \<and>
      (\<forall>j<i. \<not> sublist (keyword (CATEGORY_RULES C ! j)) pname)"
  then show "mapProductCategory C pname =
      (CategoryRule.category (CATEGORY_RULES C ! i),
       CategoryRule.subCategory (CATEGORY_RULES C ! i))"
    unfolding mapProductCategory_def
    by (intro scanRules_first_match) (simp_all add: str_includes_sublist)
next
  assume "\<forall>r\<in>set (CATEGORY_RULES C). \<not> sublist (keyword r) pname"
  then show "mapProductCategory C pname = (DEFAULT_CATEGORY C, DEFAULT_SUB_CATEGORY C)"
    unfolding mapProductCategory_def
    by (intro scanRules_no_match) (simp add: str_includes_sublist)
next
  assume "\<forall>r\<in>set (CATEGORY_RULES C). keyword r \<noteq> []"
  then show "mapProductCategory C [] = (DEFAULT_CATEGORY C, DEFAULT_SUB_CATEGORY C)"
    unfolding mapProductCategory_def
    by (intro scanRules_no_match) simp
qed

theorem mapProductCategory_first_match_wins_witness:
  "mapProductCategory
     \<lparr>CATEGORY_RULES =
        [\<lparr>keyword = ''b'', CategoryRule.category = ''Sauce'', CategoryRule.subCategory = ''Soy''\<rparr>,
         \<lparr>keyword = ''ab'', CategoryRule.category = ''Oil'', CategoryRule.subCategory = ''Cooking''\<rparr>],
      DEFAULT_CATEGORY = ''Other'', DEFAULT_SUB_CATEGORY = ''Misc''\<rparr> ''ab'' = (''Sauce'', ''Soy'')
   \<and> mapProductCategory
     \<lparr>CATEGORY_RULES =
        [\<lparr>keyword = ''b'', CategoryRule.category = ''Sauce'', CategoryRule.subCategory = ''Soy''\<rparr>,
         \<lparr>keyword = ''ab'', CategoryRule.category = ''Oil'', CategoryRule.subCategory = ''Cooking''\<rparr>],
      DEFAULT_CATEGORY = ''Other'', DEFAULT_SUB_CATEGORY = ''Misc''\<rparr> ''xyz'' = (''Other'', ''Misc'')
   \<and> mapProductCategory
     \<lparr>CATEGORY_RULES =
        [\<lparr>keyword = ''b'', CategoryRule.category = ''Sauce'', CategoryRule.subCategory = ''Soy''\<rparr>,
         \<lparr>keyword = ''ab'', CategoryRule.category = ''Oil'', CategoryRule.subCategory = ''Cooking''\<rparr>],
      DEFAULT_CATEGORY = ''Other'', DEFAULT_SUB_CATEGORY = ''Misc''\<rparr> [] = (''Other'', ''Misc'')"
  (is "?f ''ab'' = _ \<and> ?f ''xyz'' = _ \<and> ?f [] = _")
proof -
  let ?C = "\<lparr>CATEGORY_RULES =
        [\<lparr>keyword = ''b'', CategoryRule.category = ''Sauce'', CategoryRule.subCategory = ''Soy''\<rparr>,
         \<lparr>keyword = ''ab'', CategoryRule.category = ''Oil'', CategoryRule.subCategory = ''Cooking''\<rparr>],
      DEFAULT_CATEGORY = ''Other'', DEFAULT_SUB_CATEGORY = ''Misc''\<rparr>"
  have first: "?f ''ab'' = (''Sauce'', ''Soy'')"
    using mapProductCategory_first_match_wins [of ?C "''ab''", THEN conjunct1, rule_format, of 0]
    by (simp add: str_includes_sublist [symmetric])
  have none: "?f ''xyz'' = (''Other'', ''Misc'')"
    using mapProductCategory_first_match_wins [of ?C "''xyz''", THEN conjunct2, THEN conjunct1]
    by (simp add: str_includes_sublist [symmetric])
  have empty: "?f [] = (''Other'', ''Misc'')"
    using mapProductCategory_first_match_wins [of ?C "[]", THEN conjunct2, THEN conjunct2]
    by simp
  from first none empty show ?thesis by blast
qed

subsection \<open>Evaluating parseInt\<close>

lemma parseInt_examples:
  "parseInt ''2023'' = Num 2023" "parseInt ''2024'' = Num 2024"
  "parseInt ''1'' = Num 1" "parseInt ''3'' = Num 3" "parseInt ''5'' = Num 5"
  "parseInt ''12'' = Num 12"
  "parseInt [] = NaN" "parseInt ''All'' = NaN"
  "parseInt '' -42px'' = Num (- 42)" "parseInt ''0x1F'' = Num 31"
  by code_simp+

subsection \<open>The date range of filterData\<close>

lemma outsideDateRange_Num:
  assumes "parseInt (startYear filters) = Num sy" and "parseInt (startMonth filters) = Num sm"
    and "parseInt (endYear filters) = Num ey" and "parseInt (endMonth filters) = Num em"
    and "year item = Num y" and "month item = Num m"
  shows "outsideDateRange filters item \<longleftrightarrow>
    y * 100 + m < sy * 100 + sm \<or> ey * 100 + em < y * 100 + m"
  using assms
  by (simp add: outsideDateRange_def itemDateVal_def startDateVal_def endDateVal_def)

lemma filterData_subset_range:
  "item \<in> set (filterData data filters deptConstraint) \<Longrightarrow> \<not> outsideDateRange filters item"
  by (simp add: filterData_def keeps_def split: if_splits)

lemma filterData_member:
  "item \<in> set (filterData data filters deptConstraint) \<longleftrightarrow>
     item \<in> set data \<and> \<not> outsideDateRange filters item \<and>
     passesOtherTests filters deptConstraint item"
  by (auto simp: filterData_def keeps_def)

text \<open>
  C2. For every enriched record (its \<^verbatim>\<open>year\<close> and \<^verbatim>\<open>month\<close> the integers \<open>y\<close> and
  \<open>m\<close>) and every filter state whose four date strings parse as the integers \<open>sy\<close>,
  \<open>sm\<close>, \<open>ey\<close>, \<open>em\<close>: the record passes the date-range test of \<^verbatim>\<open>filterData\<close> if
  and only if \<open>sy*100+sm \<le> y*100+m \<le> ey*100+em\<close>, both ends included, and it is in the
  output of \<^verbatim>\<open>filterData\<close> if and only if it is in the input, lies in that range and
  passes the remaining tests (so a record of the start month or of the end month that
  passes the remaining tests is kept, and a record one month outside is dropped). When
  the start key exceeds the end key the test rejects the record, which is then not in the
  output, and a dataset whose years and months are all integers is filtered to the empty
  list.
\<close>

theorem filterData_date_range_inclusive:
  assumes "parseInt (startYear filters) = Num sy" and "parseInt (startMonth filters) = Num sm"
    and "parseInt (endYear filters) = Num ey" and "parseInt (endMonth filters) = Num em"
    and "year item = Num y" and "month item = Num m"
  shows "(\<not> outsideDateRange filters item \<longleftrightarrow>
            sy * 100 + sm \<le> y * 100 + m \<and> y * 100 + m \<le> ey * 100 + em)
    \<and> (item \<in> set (filterData data filters deptConstraint) \<longleftrightarrow>
            item \<in> set data \<and>
            (sy * 100 + sm \<le> y * 100 + m \<and> y * 100 + m \<le> ey * 100 + em) \<and>
            passesOtherTests filters deptConstraint item)
    \<and> (ey * 100 + em < sy * 100 + sm \<longrightarrow>
            outsideDateRange filters item \<and>
            item \<notin> set (filterData data filters deptConstraint))
    \<and> (ey * 100 + em < sy * 100 + sm \<and>
        (\<forall>d\<in>set data. \<exists>y' m'. year d = Num y' \<and> month d = Num m') \<longrightarrow>
            filterData data filters deptConstraint = [])"
proof -
  note range = outsideDateRange_Num [OF assms]
  have iff: "\<not> outsideDateRange filters item \<longleftrightarrow>
      sy * 100 + sm \<le> y * 100 + m \<and> y * 100 + m \<le> ey * 100 + em"
    unfolding range by linarith
  have kept: "item \<in> set (filterData data filters deptConstraint) \<longleftrightarrow>
      item \<in> set data \<and>
      (sy * 100 + sm \<le> y * 100 + m \<and> y * 100 + m \<le> ey * 100 + em) \<and>
      passesOtherTests filters deptConstraint item"
    unfolding filterData_member iff ..
  have inverted: "ey * 100 + em < sy * 100 + sm \<longrightarrow>
      outsideDateRange filters item \<and> item \<notin> set (filterData data filters deptConstraint)"
    unfolding filterData_member range by linarith
  have empty: "filterData data filters deptConstraint = []"
    if inv: "ey * 100 + em < sy * 100 + sm"
      and ints: "\<forall>d\<in>set data. \<exists>y' m'. year d = Num y' \<and> month d = Num m'"
  proof -
    have "outsideDateRange filters d" if "d \<in> set data" for d
    proof -
      from ints that obtain y' m' where "year d = Num y'" "month d = Num m'"
        by blast
      from outsideDateRange_Num [OF assms(1-4) this] inv show ?thesis
        by linarith
    qed
    then show ?thesis
      by (simp add: filterData_def keeps_def filter_empty_conv)
  qed
  from iff kept inverted empty show ?thesis
    by blast
qed

theorem filterData_date_range_inclusive_witness:
  "filterData
     [sampleSale ''Sales-A'' ''Soy'' ''2023-02-11'' 2023 2 10,
      sampleSale ''Sales-A'' ''Soy'' ''2023-03-11'' 2023 3 10,
      sampleSale ''Sales-A'' ''Soy'' ''2023-05-11'' 2023 5 10,
      sampleSale ''Sales-A'' ''Soy'' ''2023-06-11'' 2023 6 10]
     (sampleFilters ''2023'' ''3'' ''2023'' ''5'' ''All'') None
   = [sampleSale ''Sales-A'' ''Soy'' ''2023-03-11'' 2023 3 10,
      sampleSale ''Sales-A'' ''Soy'' ''2023-05-11'' 2023 5 10]
   \<and> sampleSale ''Sales-A'' ''Soy'' ''2023-03-11'' 2023 3 10 \<in> set (filterData
     [sampleSale ''Sales-A'' ''Soy'' ''2023-02-11'' 2023 2 10,
      sampleSale ''Sales-A'' ''Soy'' ''2023-03-11'' 2023 3 10,
      sampleSale ''Sales-A'' ''Soy'' ''2023-05-11'' 2023 5 10,
      sampleSale ''Sales-A'' ''Soy'' ''2023-06-11'' 2023 6 10]
     (sampleFilters ''2023'' ''3'' ''2023'' ''5'' ''All'') None)
   \<and> sampleSale ''Sales-A'' ''Soy'' ''2023-05-11'' 2023 5 10 \<in> set (filterData
     [sampleSale ''Sales-A'' ''Soy'' ''2023-02-11'' 2023 2 10,
      sampleSale ''Sales-A'' ''Soy'' ''2023-03-11'' 2023 3 10,
      sampleSale ''Sales-A'' ''Soy'' ''2023-05-11'' 2023 5 10,
      sampleSale ''Sales-A'' ''Soy'' ''2023-06-11'' 2023 6 10]
     (sampleFilters ''2023'' ''3'' ''2023'' ''5'' ''All'') None)
   \<and> sampleSale ''Sales-A'' ''Soy'' ''2023-02-11'' 2023 2 10 \<notin> set (filterData
     [sampleSale ''Sales-A'' ''Soy'' ''2023-02-11'' 2023 2 10,
      sampleSale ''Sales-A'' ''Soy'' ''2023-03-11'' 2023 3 10,
      sampleSale ''Sales-A'' ''Soy'' ''2023-05-11'' 2023 5 10,
      sampleSale ''Sales-A'' ''Soy'' ''2023-06-11'' 2023 6 10]
     (sampleFilters ''2023'' ''3'' ''2023'' ''5'' ''All'') None)
   \<and> sampleSale ''Sales-A'' ''Soy'' ''2023-06-11'' 2023 6 10 \<notin> set (filterData
     [sampleSale ''Sales-A'' ''Soy'' ''2023-02-11'' 2023 2 10,
      sampleSale ''Sales-A'' ''Soy'' ''2023-03-11'' 2023 3 10,
      sampleSale ''Sales-A'' ''Soy'' ''2023-05-11'' 2023 5 10,
      sampleSale ''Sales-A'' ''Soy'' ''2023-06-11'' 2023 6 10]
     (sampleFilters ''2023'' ''3'' ''2023'' ''5'' ''All'') None)
   \<and> filterData
     [sampleSale ''Sales-A'' ''Soy'' ''2023-03-11'' 2023 3 10,
      sampleSale ''Sales-A'' ''Soy'' ''2023-04-11'' 2023 4 10,
      sampleSale ''Sales-A'' ''Soy'' ''2023-05-11'' 2023 5 10]
     (sampleFilters ''2023'' ''5'' ''2023'' ''3'' ''All'') None = []"
proof -
  let ?F = "sampleFilters ''2023'' ''3'' ''2023'' ''5'' ''All''"
  let ?G = "sampleFilters ''2023'' ''5'' ''2023'' ''3'' ''All''"
  let ?D = "[sampleSale ''Sales-A'' ''Soy'' ''2023-02-11'' 2023 2 10,
      sampleSale ''Sales-A'' ''Soy'' ''2023-03-11'' 2023 3 10,
      sampleSale ''Sales-A'' ''Soy'' ''2023-05-11'' 2023 5 10,
      sampleSale ''Sales-A'' ''Soy'' ''2023-06-11'' 2023 6 10]"
  let ?E = "[sampleSale ''Sales-A'' ''Soy'' ''2023-03-11'' 2023 3 10,
      sampleSale ''Sales-A'' ''Soy'' ''2023-04-11'' 2023 4 10,
      sampleSale ''Sales-A'' ''Soy'' ''2023-05-11'' 2023 5 10]"
  have f: "parseInt (startYear ?F) = Num 2023" "parseInt (startMonth ?F) = Num 3"
    "parseInt (endYear ?F) = Num 2023" "parseInt (endMonth ?F) = Num 5"
    by (simp_all add: sampleFilters_def parseInt_examples)
  have g: "parseInt (startYear ?G) = Num 2023" "parseInt (startMonth ?G) = Num 5"
    "parseInt (endYear ?G) = Num 2023" "parseInt (endMonth ?G) = Num 3"
    by (simp_all add: sampleFilters_def parseInt_examples)
  have s: "year (sampleSale dept pname d y m amt) = Num y"
    "month (sampleSale dept pname d y m amt) = Num m" for dept pname d y m amt
    by (simp_all add: sampleSale_def)
  have pass: "passesOtherTests ?F None (sampleSale ''Sales-A'' ''Soy'' d 2023 m 10)" for d m
    by (simp add: passesOtherTests_def truthy_def sampleFilters_def sampleSale_def)
  note kept = filterData_date_range_inclusive [OF f s, THEN conjunct2, THEN conjunct1]
  note empty = filterData_date_range_inclusive [OF g s, THEN conjunct2, THEN conjunct2,
      THEN conjunct2, THEN mp]
  have "sampleSale ''Sales-A'' ''Soy'' ''2023-03-11'' 2023 3 10 \<in> set (filterData ?D ?F None)"
    unfolding kept by (simp add: pass)
  moreover
  have "sampleSale ''Sales-A'' ''Soy'' ''2023-05-11'' 2023 5 10 \<in> set (filterData ?D ?F None)"
    unfolding kept by (simp add: pass)
  moreover
  have "sampleSale ''Sales-A'' ''Soy'' ''2023-02-11'' 2023 2 10 \<notin> set (filterData ?D ?F None)"
    unfolding kept by simp
  moreover
  have "sampleSale ''Sales-A'' ''Soy'' ''2023-06-11'' 2023 6 10 \<notin> set (filterData ?D ?F None)"
    unfolding kept by simp
  moreover
  have "filterData ?E ?G None = []"
    by (rule empty) (simp add: sampleSale_def)
  moreover
  have "filterData ?D ?F None =
      [sampleSale ''Sales-A'' ''Soy'' ''2023-03-11'' 2023 3 10,
       sampleSale ''Sales-A'' ''Soy'' ''2023-05-11'' 2023 5 10]"
    by (simp add: filterData_def keeps_def outsideDateRange_def itemDateVal_def
        startDateVal_def endDateVal_def passesOtherTests_def truthy_def sampleFilters_def
        sampleSale_def parseInt_examples)
  ultimately show ?thesis
    by blast
qed

subsection \<open>The department constraint\<close>

lemma passesOtherTests_constraint:
  "passesOtherTests filters (Some c) item \<Longrightarrow> c \<noteq> [] \<Longrightarrow> department item = c"
  by (simp add: passesOtherTests_def truthy_def split: if_splits)

lemma passesOtherTests_department:
  assumes "passesOtherTests filters deptConstraint item"
    and "FilterState.department filters \<noteq> []" and "FilterState.department filters \<noteq> ''All''"
  shows "department item = FilterState.department filters"
proof (rule ccontr)
  assume "department item \<noteq> FilterState.department filters"
  with assms(2,3) have "\<not> passesOtherTests filters deptConstraint item"
    by (simp add: passesOtherTests_def truthy_def)
  with assms(1) show False by contradiction
qed

text \<open>
  C3. For every dataset, filter state and non-empty department constraint \<open>c\<close>, every
  record in the output of \<^verbatim>\<open>filterData\<close> has department \<open>c\<close>; and when the explicit
  department facet is neither \<^verbatim>\<open>'All'\<close>, nor empty, nor \<open>c\<close>, the output is empty: the
  constraint and the facet are both required, and the facet never widens the constraint.
\<close>

theorem filterData_department_constraint:
  assumes "c \<noteq> []"
  shows "(\<forall>item\<in>set (filterData data filters (Some c)). department item = c)
    \<and> (FilterState.department filters \<noteq> ''All'' \<and> FilterState.department filters \<noteq> [] \<and>
         FilterState.department filters \<noteq> c \<longrightarrow>
       filterData data filters (Some c) = [])"
proof (intro conjI ballI impI)
  fix item
  assume "item \<in> set (filterData data filters (Some c))"
  then have "passesOtherTests filters (Some c) item"
    by (simp add: filterData_member)
  with assms show "department item = c"
    by (rule passesOtherTests_constraint [rotated -1])
next
  assume facet: "FilterState.department filters \<noteq> ''All'' \<and>
    FilterState.department filters \<noteq> [] \<and> FilterState.department filters \<noteq> c"
  show "filterData data filters (Some c) = []"
  proof (rule ccontr)
    assume "filterData data filters (Some c) \<noteq> []"
    then obtain item where "item \<in> set (filterData data filters (Some c))"
      by (cases "filterData data filters (Some c)") auto
    then have pass: "passesOtherTests filters (Some c) item"
      by (simp add: filterData_member)
    from pass assms have "department item = c"
      by (rule passesOtherTests_constraint)
    moreover from pass facet have "department item = FilterState.department filters"
      by (intro passesOtherTests_department [of filters "Some c"]) simp_all
    ultimately show False using facet by simp
  qed
qed

theorem filterData_department_constraint_witness:
  "filterData
     [sampleSale ''Sales-A'' ''Soy'' ''2023-03-11'' 2023 3 10,
      sampleSale ''Sales-B'' ''Oil'' ''2023-04-02'' 2023 4 7]
     (sampleFilters ''2023'' ''1'' ''2023'' ''12'' ''All'') (Some ''Sales-A'')
     = [sampleSale ''Sales-A'' ''Soy'' ''2023-03-11'' 2023 3 10]
   \<and> filterData
     [sampleSale ''Sales-A'' ''Soy'' ''2023-03-11'' 2023 3 10,
      sampleSale ''Sales-B'' ''Oil'' ''2023-04-02'' 2023 4 7]
     (sampleFilters ''2023'' ''1'' ''2023'' ''12'' ''Sales-B'') (Some ''Sales-A'') = []"
proof -
  let ?data = "[sampleSale ''Sales-A'' ''Soy'' ''2023-03-11'' 2023 3 10,
      sampleSale ''Sales-B'' ''Oil'' ''2023-04-02'' 2023 4 7]"
  have c: "''Sales-A'' \<noteq> []" by simp
  have "filterData ?data (sampleFilters ''2023'' ''1'' ''2023'' ''12'' ''Sales-B'') (Some ''Sales-A'') = []"
    using filterData_department_constraint [OF c, THEN conjunct2, rule_format,
        of "sampleFilters ''2023'' ''1'' ''2023'' ''12'' ''Sales-B''" ?data]
    by (simp add: sampleFilters_def)
  moreover
  have "filterData ?data (sampleFilters ''2023'' ''1'' ''2023'' ''12'' ''All'') (Some ''Sales-A'')
      = [sampleSale ''Sales-A'' ''Soy'' ''2023-03-11'' 2023 3 10]"
    using filterData_department_constraint [OF c, THEN conjunct1,
        of ?data "sampleFilters ''2023'' ''1'' ''2023'' ''12'' ''All''"]
    by (simp add: filterData_def keeps_def outsideDateRange_def itemDateVal_def
        startDateVal_def endDateVal_def passesOtherTests_def truthy_def sampleFilters_def
        sampleSale_def parseInt_examples)
  ultimately show ?thesis by blast
qed

subsection \<open>Filtering twice\<close>

text \<open>
  C9. Filtering is idempotent: for every dataset \<open>D\<close>, filter state \<open>F\<close> and optional
  department constraint \<open>c\<close>, \<^verbatim>\<open>filterData(filterData(D, F, c), F, c)\<close> is
  \<^verbatim>\<open>filterData(D, F, c)\<close>.
\<close>

theorem filterData_idempotent:
  "filterData (filterData D F c) F c = filterData D F c"
  by (simp add: filterData_def)

theorem filterData_idempotent_witness:
  "filterData (filterData
     [sampleSale ''Sales-A'' ''Soy'' ''2023-03-11'' 2023 3 10,
      sampleSale ''Sales-B'' ''Oil'' ''2024-04-02'' 2024 4 7]
     (sampleFilters ''2023'' ''1'' ''2023'' ''12'' ''All'') None)
     (sampleFilters ''2023'' ''1'' ''2023'' ''12'' ''All'') None
   = [sampleSale ''Sales-A'' ''Soy'' ''2023-03-11'' 2023 3 10]"
proof -
  have "filterData
     [sampleSale ''Sales-A'' ''Soy'' ''2023-03-11'' 2023 3 10,
      sampleSale ''Sales-B'' ''Oil'' ''2024-04-02'' 2024 4 7]
     (sampleFilters ''2023'' ''1'' ''2023'' ''12'' ''All'') None
     = [sampleSale ''Sales-A'' ''Soy'' ''2023-03-11'' 2023 3 10]"
    by (simp add: filterData_def keeps_def outsideDateRange_def itemDateVal_def
        startDateVal_def endDateVal_def passesOtherTests_def truthy_def sampleFilters_def
        sampleSale_def parseInt_examples)
  then show ?thesis
    using filterData_idempotent
      [of "[sampleSale ''Sales-A'' ''Soy'' ''2023-03-11'' 2023 3 10,
            sampleSale ''Sales-B'' ''Oil'' ''2024-04-02'' 2024 4 7]"
          "sampleFilters ''2023'' ''1'' ''2023'' ''12'' ''All''" None]
    by simp
qed

subsection \<open>Date strings that are not integers\<close>

lemma num_lt_NaN_right: "\<not> num_lt a NaN"
  by (cases a) simp_all

lemma num_gt_NaN_right: "\<not> num_gt a NaN"
  by (cases a) simp_all

lemma dateVal_NaN:
  "a = NaN \<or> b = NaN \<Longrightarrow> num_add (num_mul a (Num 100)) b = NaN"
  by (cases a; cases b) simp_all

lemma outsideDateRange_no_start:
  assumes "parseInt (startYear filters) = NaN \<or> parseInt (startMonth filters) = NaN"
    and "parseInt (endYear filters) = Num ey" and "parseInt (endMonth filters) = Num em"
    and "year item = Num y" and "month item = Num m"
  shows "outsideDateRange filters item \<longleftrightarrow> ey * 100 + em < y * 100 + m"
  using assms
  by (auto simp: outsideDateRange_def itemDateVal_def startDateVal_def endDateVal_def
      dateVal_NaN)

lemma outsideDateRange_no_end:
  assumes "parseInt (endYear filters) = NaN \<or> parseInt (endMonth filters) = NaN"
    and "parseInt (startYear filters) = Num sy" and "parseInt (startMonth filters) = Num sm"
    and "year item = Num y" and "month item = Num m"
  shows "outsideDateRange filters item \<longleftrightarrow> y * 100 + m < sy * 100 + sm"
  using assms
  by (auto simp: outsideDateRange_def itemDateVal_def startDateVal_def endDateVal_def
      dateVal_NaN)

text \<open>
  C10, as the code has it. A start year or start month that does not parse switches the
  lower bound off, and an end year or end month that does not parse switches the upper
  bound off; the other bound stays in force: with a start string that does not parse and
  the end strings parsing as \<open>ey\<close> and \<open>em\<close>, a record of the integer year \<open>y\<close> and month
  \<open>m\<close> is rejected by the date-range test if and only if \<open>ey*100+em < y*100+m\<close>, and it
  is in the output of \<^verbatim>\<open>filterData\<close> if and only if it is in the input, has
  \<open>y*100+m \<le> ey*100+em\<close> and passes the remaining tests; likewise with an end string that
  does not parse and the start strings parsing as \<open>sy\<close> and \<open>sm\<close>, where the record is
  rejected if and only if \<open>y*100+m < sy*100+sm\<close>. When a start string and an end string
  both fail to parse (the initial filter state: both years empty) the date-range test
  rejects no record, and \<^verbatim>\<open>filterData\<close> keeps exactly the records that pass the
  constraint, the facets and the text searches.
\<close>

theorem filterData_unparsed_dates:
  "((parseInt (startYear filters) = NaN \<or> parseInt (startMonth filters) = NaN) \<longrightarrow>
      \<not> num_lt (itemDateVal item) (startDateVal filters))
   \<and> ((parseInt (endYear filters) = NaN \<or> parseInt (endMonth filters) = NaN) \<longrightarrow>
      \<not> num_gt (itemDateVal item) (endDateVal filters))
   \<and> ((parseInt (startYear filters) = NaN \<or> parseInt (startMonth filters) = NaN) \<and>
      parseInt (endYear filters) = Num ey \<and> parseInt (endMonth filters) = Num em \<and>
      year item = Num y \<and> month item = Num m \<longrightarrow>
      (outsideDateRange filters item \<longleftrightarrow> ey * 100 + em < y * 100 + m) \<and>
      (item \<in> set (filterData data filters deptConstraint) \<longleftrightarrow>
         item \<in> set data \<and> y * 100 + m \<le> ey * 100 + em \<and>
         passesOtherTests filters deptConstraint item))
   \<and> ((parseInt (endYear filters) = NaN \<or> parseInt (endMonth filters) = NaN) \<and>
      parseInt (startYear filters) = Num sy \<and> parseInt (startMonth filters) = Num sm \<and>
      year item = Num y \<and> month item = Num m \<longrightarrow>
      (outsideDateRange filters item \<longleftrightarrow> y * 100 + m < sy * 100 + sm) \<and>
      (item \<in> set (filterData data filters deptConstraint) \<longleftrightarrow>
         item \<in> set data \<and> sy * 100 + sm \<le> y * 100 + m \<and>
         passesOtherTests filters deptConstraint item))
   \<and> ((parseInt (startYear filters) = NaN \<or> parseInt (startMonth filters) = NaN) \<and>
      (parseInt (endYear filters) = NaN \<or> parseInt (endMonth filters) = NaN) \<longrightarrow>
      \<not> outsideDateRange filters item \<and>
      filterData data filters deptConstraint =
        filter (passesOtherTests filters deptConstraint) data)"
proof (intro conjI impI)
  assume "parseInt (startYear filters) = NaN \<or> parseInt (startMonth filters) = NaN"
  then show "\<not> num_lt (itemDateVal item) (startDateVal filters)"
    by (simp add: startDateVal_def dateVal_NaN num_lt_NaN_right)
next
  assume "parseInt (endYear filters) = NaN \<or> parseInt (endMonth filters) = NaN"
  then show "\<not> num_gt (itemDateVal item) (endDateVal filters)"
    by (simp add: endDateVal_def dateVal_NaN num_gt_NaN_right)
next
  assume a: "(parseInt (startYear filters) = NaN \<or> parseInt (startMonth filters) = NaN) \<and>
      parseInt (endYear filters) = Num ey \<and> parseInt (endMonth filters) = Num em \<and>
      year item = Num y \<and> month item = Num m"
  then show upper: "outsideDateRange filters item \<longleftrightarrow> ey * 100 + em < y * 100 + m"
    by (intro outsideDateRange_no_start) simp_all
  show "item \<in> set (filterData data filters deptConstraint) \<longleftrightarrow>
      item \<in> set data \<and> y * 100 + m \<le> ey * 100 + em \<and>
      passesOtherTests filters deptConstraint item"
    unfolding filterData_member upper by linarith
next
  assume a: "(parseInt (endYear filters) = NaN \<or> parseInt (endMonth filters) = NaN) \<and>
      parseInt (startYear filters) = Num sy \<and> parseInt (startMonth filters) = Num sm \<and>
      year item = Num y \<and> month item = Num m"
  then show lower: "outsideDateRange filters item \<longleftrightarrow> y * 100 + m < sy * 100 + sm"
    by (intro outsideDateRange_no_end) simp_all
  show "item \<in> set (filterData data filters deptConstraint) \<longleftrightarrow>
      item \<in> set data \<and> sy * 100 + sm \<le> y * 100 + m \<and>
      passesOtherTests filters deptConstraint item"
    unfolding filterData_member lower by linarith
next
  assume both: "(parseInt (startYear filters) = NaN \<or> parseInt (startMonth filters) = NaN) \<and>
      (parseInt (endYear filters) = NaN \<or> parseInt (endMonth filters) = NaN)"
  then have open_range: "\<not> outsideDateRange filters r" for r
    by (simp add: outsideDateRange_def startDateVal_def endDateVal_def dateVal_NaN
        num_lt_NaN_right num_gt_NaN_right)
  then show "\<not> outsideDateRange filters item" .
  from open_range
  have "keeps filters deptConstraint = passesOtherTests filters deptConstraint"
    by (simp add: fun_eq_iff keeps_def)
  then show "filterData data filters deptConstraint =
      filter (passesOtherTests filters deptConstraint) data"
    by (simp add: filterData_def)
qed

text \<open>
  Worked instances. With both years empty only the department facet selects. With an
  empty start year and the end \<^verbatim>\<open>2023/12\<close>, a record of \<^verbatim>\<open>2022/01\<close> and a record of
  the end month are kept and a record of \<^verbatim>\<open>2024/04\<close> is dropped. With the start
  \<^verbatim>\<open>2023/3\<close> and an empty end year, a record of \<^verbatim>\<open>2023/02\<close> is dropped and a record of
  \<^verbatim>\<open>2024/04\<close> is kept.
\<close>

theorem filterData_unparsed_dates_witness:
  "filterData
     [sampleSale ''Sales-A'' ''Soy'' ''2023-03-11'' 2023 3 10,
      sampleSale ''Sales-B'' ''Oil'' ''2024-04-02'' 2024 4 7]
     (sampleFilters [] ''1'' [] ''12'' ''Sales-B'') None
   = [sampleSale ''Sales-B'' ''Oil'' ''2024-04-02'' 2024 4 7]
   \<and> sampleSale ''Sales-A'' ''Soy'' ''2022-01-05'' 2022 1 10 \<in> set (filterData
     [sampleSale ''Sales-A'' ''Soy'' ''2022-01-05'' 2022 1 10,
      sampleSale ''Sales-A'' ''Soy'' ''2023-12-30'' 2023 12 10,
      sampleSale ''Sales-B'' ''Oil'' ''2024-04-02'' 2024 4 7]
     (sampleFilters [] ''1'' ''2023'' ''12'' ''All'') None)
   \<and> sampleSale ''Sales-A'' ''Soy'' ''2023-12-30'' 2023 12 10 \<in> set (filterData
     [sampleSale ''Sales-A'' ''Soy'' ''2022-01-05'' 2022 1 10,
      sampleSale ''Sales-A'' ''Soy'' ''2023-12-30'' 2023 12 10,
      sampleSale ''Sales-B'' ''Oil'' ''2024-04-02'' 2024 4 7]
     (sampleFilters [] ''1'' ''2023'' ''12'' ''All'') None)
   \<and> sampleSale ''Sales-B'' ''Oil'' ''2024-04-02'' 2024 4 7 \<notin> set (filterData
     [sampleSale ''Sales-A'' ''Soy'' ''2022-01-05'' 2022 1 10,
      sampleSale ''Sales-A'' ''Soy'' ''2023-12-30'' 2023 12 10,
      sampleSale ''Sales-B'' ''Oil'' ''2024-04-02'' 2024 4 7]
     (sampleFilters [] ''1'' ''2023'' ''12'' ''All'') None)
   \<and> sampleSale ''Sales-A'' ''Soy'' ''2023-02-11'' 2023 2 10 \<notin> set (filterData
     [sampleSale ''Sales-A'' ''Soy'' ''2023-02-11'' 2023 2 10,
      sampleSale ''Sales-B'' ''Oil'' ''2024-04-02'' 2024 4 7]
     (sampleFilters ''2023'' ''3'' [] ''12'' ''All'') None)
   \<and> sampleSale ''Sales-B'' ''Oil'' ''2024-04-02'' 2024 4 7 \<in> set (filterData
     [sampleSale ''Sales-A'' ''Soy'' ''2023-02-11'' 2023 2 10,
      sampleSale ''Sales-B'' ''Oil'' ''2024-04-02'' 2024 4 7]
     (sampleFilters ''2023'' ''3'' [] ''12'' ''All'') None)"
proof -
  let ?F = "sampleFilters [] ''1'' ''2023'' ''12'' ''All''"
  let ?G = "sampleFilters ''2023'' ''3'' [] ''12'' ''All''"
  let ?D = "[sampleSale ''Sales-A'' ''Soy'' ''2022-01-05'' 2022 1 10,
      sampleSale ''Sales-A'' ''Soy'' ''2023-12-30'' 2023 12 10,
      sampleSale ''Sales-B'' ''Oil'' ''2024-04-02'' 2024 4 7]"
  let ?E = "[sampleSale ''Sales-A'' ''Soy'' ''2023-02-11'' 2023 2 10,
      sampleSale ''Sales-B'' ''Oil'' ''2024-04-02'' 2024 4 7]"
  have f: "(parseInt (startYear ?F) = NaN \<or> parseInt (startMonth ?F) = NaN) \<and>
      parseInt (endYear ?F) = Num 2023 \<and> parseInt (endMonth ?F) = Num 12 \<and>
      year (sampleSale dept pname d y m amt) = Num y \<and>
      month (sampleSale dept pname d y m amt) = Num m" for dept pname d y m amt
    by (simp add: sampleFilters_def sampleSale_def parseInt_examples)
  have g: "(parseInt (endYear ?G) = NaN \<or> parseInt (endMonth ?G) = NaN) \<and>
      parseInt (startYear ?G) = Num 2023 \<and> parseInt (startMonth ?G) = Num 3 \<and>
      year (sampleSale dept pname d y m amt) = Num y \<and>
      month (sampleSale dept pname d y m amt) = Num m" for dept pname d y m amt
    by (simp add: sampleFilters_def sampleSale_def parseInt_examples)
  have passF: "passesOtherTests ?F None (sampleSale dept pname d y m amt)" for dept pname d y m amt
    by (simp add: passesOtherTests_def truthy_def sampleFilters_def sampleSale_def)
  have passG: "passesOtherTests ?G None (sampleSale dept pname d y m amt)" for dept pname d y m amt
    by (simp add: passesOtherTests_def truthy_def sampleFilters_def sampleSale_def)
  note no_start = filterData_unparsed_dates [THEN conjunct2, THEN conjunct2, THEN conjunct1,
      THEN mp, OF f, THEN conjunct2]
  note no_end = filterData_unparsed_dates [THEN conjunct2, THEN conjunct2, THEN conjunct2,
      THEN conjunct1, THEN mp, OF g, THEN conjunct2]
  have "filterData
     [sampleSale ''Sales-A'' ''Soy'' ''2023-03-11'' 2023 3 10,
      sampleSale ''Sales-B'' ''Oil'' ''2024-04-02'' 2024 4 7]
     (sampleFilters [] ''1'' [] ''12'' ''Sales-B'') None
   = [sampleSale ''Sales-B'' ''Oil'' ''2024-04-02'' 2024 4 7]"
    using filterData_unparsed_dates [THEN conjunct2, THEN conjunct2, THEN conjunct2,
      THEN conjunct2, rule_format, THEN conjunct2,
      of "sampleFilters [] ''1'' [] ''12'' ''Sales-B''"
         "[sampleSale ''Sales-A'' ''Soy'' ''2023-03-11'' 2023 3 10,
           sampleSale ''Sales-B'' ''Oil'' ''2024-04-02'' 2024 4 7]" None]
    by (simp add: passesOtherTests_def truthy_def sampleFilters_def sampleSale_def
        parseInt_examples)
  moreover
  have "sampleSale ''Sales-A'' ''Soy'' ''2022-01-05'' 2022 1 10 \<in> set (filterData ?D ?F None)"
    unfolding no_start by (simp add: passF)
  moreover
  have "sampleSale ''Sales-A'' ''Soy'' ''2023-12-30'' 2023 12 10 \<in> set (filterData ?D ?F None)"
    unfolding no_start by (simp add: passF)
  moreover
  have "sampleSale ''Sales-B'' ''Oil'' ''2024-04-02'' 2024 4 7 \<notin> set (filterData ?D ?F None)"
    unfolding no_start by simp
  moreover
  have "sampleSale ''Sales-A'' ''Soy'' ''2023-02-11'' 2023 2 10 \<notin> set (filterData ?E ?G None)"
    unfolding no_end by simp
  moreover
  have "sampleSale ''Sales-B'' ''Oil'' ''2024-04-02'' 2024 4 7 \<in> set (filterData ?E ?G None)"
    unfolding no_end by (simp add: passG)
  ultimately show ?thesis
    by blast
qed

text \<open>
  The wider statement (one unparsed string is enough for the test to reject no
  record) fails: with an empty start year and the end \<^verbatim>\<open>2023/12\<close>, the lower bound is
  off, and a record of \<^verbatim>\<open>2024/04\<close> is still rejected by the upper bound.
\<close>

theorem filterData_unparsed_start_counterexample:
  "parseInt (startYear (sampleFilters [] ''1'' ''2023'' ''12'' ''All'')) = NaN
   \<and> outsideDateRange (sampleFilters [] ''1'' ''2023'' ''12'' ''All'')
       (sampleSale ''Sales-B'' ''Oil'' ''2024-04-02'' 2024 4 7)
   \<and> filterData [sampleSale ''Sales-B'' ''Oil'' ''2024-04-02'' 2024 4 7]
       (sampleFilters [] ''1'' ''2023'' ''12'' ''All'') None = []"
  by (simp add: filterData_def keeps_def outsideDateRange_def itemDateVal_def
      startDateVal_def endDateVal_def sampleFilters_def sampleSale_def parseInt_examples)

lemma num_lt_NaN_left: "\<not> num_lt NaN b"
  by simp

lemma num_gt_NaN_left: "\<not> num_gt NaN b"
  by simp

text \<open>
  The same holds on the record's side: a record whose \<^verbatim>\<open>year\<close> or \<^verbatim>\<open>month\<close> is
  \<^verbatim>\<open>NaN\<close> (what \<^verbatim>\<open>processData\<close> stores for a date that does not parse) is rejected by
  no date range.
\<close>

theorem outsideDateRange_NaN_record:
  "year item = NaN \<or> month item = NaN \<Longrightarrow> \<not> outsideDateRange filters item"
  by (simp add: outsideDateRange_def itemDateVal_def dateVal_NaN)

theorem outsideDateRange_NaN_record_witness:
  "\<not> outsideDateRange (sampleFilters ''2023'' ''3'' ''2023'' ''5'' ''All'')
      ((sampleSale ''Sales-A'' ''Soy'' ''soon'' 0 0 10)\<lparr>year := NaN, month := NaN\<rparr>)"
  using outsideDateRange_NaN_record
    [of "(sampleSale ''Sales-A'' ''Soy'' ''soon'' 0 0 10)\<lparr>year := NaN, month := NaN\<rparr>"
        "sampleFilters ''2023'' ''3'' ''2023'' ''5'' ''All''"]
  by simp

section \<open>Properties of the binary64 arithmetic\<close>

subsection \<open>Rounding to the nearest integer\<close>

lemma roundTiesToEven_error: "\<bar>of_int (roundTiesToEven y) - y\<bar> \<le> 1 / 2"
proof -
  have "of_int \<lfloor>y\<rfloor> \<le> y" "y < of_int \<lfloor>y\<rfloor> + 1"
    by linarith+
  then show ?thesis
    unfolding roundTiesToEven_def Let_def by (auto simp: abs_le_iff)
qed

lemma roundTiesToEven_of_int: "roundTiesToEven (of_int k) = k"
  by (simp add: roundTiesToEven_def)

subsection \<open>The binary exponent\<close>

text \<open>\<open>ilog2 x\<close> is the integer \<open>i\<close> with \<open>2^i \<le> \<bar>x\<bar> < 2^(i+1)\<close>.\<close>

lemma ilog2_bounds:
  assumes "x \<noteq> 0"
  shows "2 powi ilog2 x \<le> \<bar>x\<bar>" and "\<bar>x\<bar> < 2 powi (ilog2 x + 1)"
proof -
  define a where "a = fst (quotient_of \<bar>x\<bar>)"
  define b where "b = snd (quotient_of \<bar>x\<bar>)"
  define d where "d = bitlen a - bitlen b"
  have q: "quotient_of \<bar>x\<bar> = (a, b)"
    by (simp add: a_def b_def)
  have b: "0 < b"
    using quotient_of_denom_pos [OF q] .
  have x: "\<bar>x\<bar> = of_int a / of_int b"
    using quotient_of_div [OF q] .
  have "0 < \<bar>x\<bar>"
    using assms by simp
  then have a: "0 < a"
    using b x by (simp add: zero_less_divide_iff)
  have la: "1 \<le> bitlen a" and lb: "1 \<le> bitlen b"
    using a b by (simp_all add: bitlen_alt_def)
  have "(2::int) ^ nat (bitlen a - 1) \<le> a" and "a < 2 ^ nat (bitlen a)"
    and "(2::int) ^ nat (bitlen b - 1) \<le> b" and "b < 2 ^ nat (bitlen b)"
    using bitlen_bounds [OF a] bitlen_bounds [OF b] by simp_all
  then have "(of_int ((2::int) ^ nat (bitlen a - 1)) :: rat) \<le> of_int a"
    and "(of_int a :: rat) < of_int ((2::int) ^ nat (bitlen a))"
    and "(of_int ((2::int) ^ nat (bitlen b - 1)) :: rat) \<le> of_int b"
    and "(of_int b :: rat) < of_int ((2::int) ^ nat (bitlen b))"
    by (simp_all only: of_int_le_iff of_int_less_iff)
  then have A: "(2::rat) powi (bitlen a - 1) \<le> of_int a" "(of_int a :: rat) < 2 powi bitlen a"
    and B: "(2::rat) powi (bitlen b - 1) \<le> of_int b" "(of_int b :: rat) < 2 powi bitlen b"
    using la lb by (simp_all add: power_int_def)
  have bpos: "(0::rat) < of_int b"
    using b by simp
  have "\<bar>x\<bar> < 2 powi bitlen a / 2 powi (bitlen b - 1)"
    unfolding x using A(2) B(1) a
    by (intro frac_less) simp_all
  also have "\<dots> = 2 powi (bitlen a - (bitlen b - 1))"
    by (simp add: power_int_diff)
  also have "bitlen a - (bitlen b - 1) = d + 1"
    by (simp add: d_def)
  finally have up: "\<bar>x\<bar> < 2 powi (d + 1)" .
  have "2 powi (bitlen a - 1) / 2 powi bitlen b < \<bar>x\<bar>"
    unfolding x using A(1) B(2) bpos
    by (intro frac_less2) simp_all
  moreover have "(2::rat) powi (bitlen a - 1) / 2 powi bitlen b = 2 powi (bitlen a - 1 - bitlen b)"
    by (simp add: power_int_diff)
  moreover have "bitlen a - 1 - bitlen b = d - 1"
    by (simp add: d_def)
  ultimately have low: "2 powi (d - 1) < \<bar>x\<bar>"
    by simp
  have e: "ilog2 x = (if 2 powi d \<le> \<bar>x\<bar> then d else d - 1)"
    by (simp add: ilog2_def Let_def d_def a_def b_def)
  show "2 powi ilog2 x \<le> \<bar>x\<bar>"
    using low by (simp add: e less_imp_le)
  show "\<bar>x\<bar> < 2 powi (ilog2 x + 1)"
    using up by (simp add: e not_le)
qed

subsection \<open>The rounding error of a Number value\<close>

text \<open>
  A Number value is within half a quantum of the exact result: within \<open>2^(- 53) * \<bar>x\<bar>\<close>
  of a result \<open>x\<close> in the normal range, and within \<open>2^(- 1075)\<close> of a subnormal one.
\<close>

lemma quantum_pos: "0 < quantum x"
  by (simp add: quantum_def)

lemma NumberValue_zero: "NumberValue 0 = 0"
  by (simp add: NumberValue_def)

lemma NumberValue_error_quantum: "\<bar>NumberValue x - x\<bar> \<le> quantum x / 2"
proof (cases "x = 0")
  case True
  then show ?thesis
    using quantum_pos [of x] by (simp add: NumberValue_def)
next
  case False
  define q where "q = quantum x"
  have q: "0 < q"
    by (simp add: q_def quantum_pos)
  have "NumberValue x - x = (of_int (roundTiesToEven (x / q)) - x / q) * q"
    using False q by (simp add: NumberValue_def q_def algebra_simps)
  then have "\<bar>NumberValue x - x\<bar> = \<bar>of_int (roundTiesToEven (x / q)) - x / q\<bar> * q"
    using q by (simp add: abs_mult)
  also have "\<dots> \<le> 1 / 2 * q"
    using roundTiesToEven_error [of "x / q"] q by (intro mult_right_mono) simp_all
  finally show ?thesis
    by (simp add: q_def)
qed


lemma pow2_add: "(2::rat) powi (a + b) = 2 powi a * 2 powi b"
  by (simp add: power_int_add)

lemma pow2_less_cancel:
  assumes "(2::rat) powi a \<le> x" and "x < 2 powi b"
  shows "a < b"
proof (rule ccontr)
  assume "\<not> a < b"
  then have "(2::rat) powi b \<le> 2 powi a"
    by (intro power_int_increasing) simp_all
  with assms show False
    by simp
qed

lemma quantum_normal:
  assumes "x \<noteq> 0" and "emin \<le> ilog2 x - 52"
  shows "quantum x / 2 \<le> u64 * \<bar>x\<bar>"
proof -
  have "quantum x = 2 powi (ilog2 x + (- 52))"
    using assms by (simp add: quantum_def max_def)
  also have "\<dots> = 2 powi ilog2 x * 2 powi (- 52)"
    by (rule pow2_add)
  finally have "quantum x / 2 = 2 powi ilog2 x * (2 powi (- 52) / 2)"
    by simp
  also have "(2::rat) powi (- 52) / 2 = u64"
    by (simp add: u64_def power_int_minus_divide)
  finally have "quantum x / 2 = u64 * 2 powi ilog2 x"
    by (simp only: mult.commute)
  moreover have "0 \<le> u64"
    by (simp add: u64_def)
  then have "u64 * 2 powi ilog2 x \<le> u64 * \<bar>x\<bar>"
    using ilog2_bounds(1) [OF assms(1)] by (rule mult_left_mono [rotated])
  ultimately show ?thesis
    by simp
qed

lemma NumberValue_error_normal:
  assumes "2 powi (emin + 52) \<le> \<bar>x\<bar>"
  shows "\<bar>NumberValue x - x\<bar> \<le> u64 * \<bar>x\<bar>"
proof -
  have "(0::rat) < 2 powi (emin + 52)"
    by simp
  with assms have "0 < \<bar>x\<bar>"
    by linarith
  then have x: "x \<noteq> 0"
    by simp
  have "emin + 52 < ilog2 x + 1"
    using pow2_less_cancel [OF assms ilog2_bounds(2) [OF x]] .
  then have "emin \<le> ilog2 x - 52"
    by simp
  from quantum_normal [OF x this] NumberValue_error_quantum [of x] show ?thesis
    by simp
qed


subsection \<open>Results that are not rounded\<close>

text \<open>
  Every Number value is a multiple of \<open>2^(- 1074)\<close>. A multiple \<open>m * 2^j\<close> of a power of two
  with \<open>\<bar>m\<bar> \<le> 2^53\<close> and \<open>- 1074 \<le> j\<close> is its own Number value: so are the integers up to
  \<open>2^53\<close> in magnitude, and the sums of two Numbers that are subnormal. The sum of two
  Numbers is therefore always within \<open>2^(- 53) * \<bar>a + b\<bar>\<close> of the exact sum.
\<close>

lemma pow2_nonneg_int: "0 \<le> j \<Longrightarrow> (2::rat) powi j = of_int (2 ^ nat j)"
  by (simp add: power_int_def)

lemma onGrid_NumberValue: "onGrid (NumberValue x)"
proof (cases "x = 0")
  case True
  then show ?thesis
    by (auto simp: NumberValue_def onGrid_def intro: exI [of _ 0])
next
  case False
  define j where "j = max (ilog2 x - 52) emin"
  have "(2::rat) powi j = 2 powi ((j - emin) + emin)"
    by simp
  also have "\<dots> = 2 powi (j - emin) * 2 powi emin"
    by (rule pow2_add)
  also have "(2::rat) powi (j - emin) = of_int (2 ^ nat (j - emin))"
    by (rule pow2_nonneg_int) (simp add: j_def)
  finally have "NumberValue x =
      of_int (roundTiesToEven (x / quantum x) * 2 ^ nat (j - emin)) * 2 powi emin"
    using False by (simp add: NumberValue_def quantum_def j_def)
  then show ?thesis
    unfolding onGrid_def by blast
qed

lemma NumberValue_representable_less:
  assumes "emin \<le> j" and "\<bar>m\<bar> < 2 ^ 53"
  shows "NumberValue (of_int m * 2 powi j) = of_int m * 2 powi j"
proof (cases "m = 0")
  case True
  then show ?thesis
    by (simp add: NumberValue_def)
next
  case False
  define x :: rat where "x = of_int m * 2 powi j"
  define i where "i = max (ilog2 x - 52) emin"
  have x: "x \<noteq> 0"
    using False by (simp add: x_def)
  have "\<bar>x\<bar> = of_int \<bar>m\<bar> * 2 powi j"
    by (simp add: x_def abs_mult)
  also have "\<dots> < of_int (2 ^ 53) * 2 powi j"
    using assms(2) by (intro mult_strict_right_mono) (simp_all only: of_int_less_iff zero_less_power_int zero_less_numeral)
  also have "\<dots> = 2 powi (53 + j)"
    by (simp add: power_int_add)
  finally have "\<bar>x\<bar> < 2 powi (53 + j)" .
  then have "ilog2 x < 53 + j"
    using pow2_less_cancel [OF ilog2_bounds(1) [OF x]] by simp
  then have ij: "i \<le> j"
    using assms(1) by (simp add: i_def)
  have "(2::rat) powi j = 2 powi ((j - i) + i)"
    by simp
  also have "\<dots> = 2 powi (j - i) * 2 powi i"
    by (rule pow2_add)
  also have "(2::rat) powi (j - i) = of_int (2 ^ nat (j - i))"
    by (rule pow2_nonneg_int) (simp add: ij)
  finally have "(2::rat) powi j = of_int (2 ^ nat (j - i)) * 2 powi i" .
  then have "x = of_int (m * 2 ^ nat (j - i)) * quantum x"
    by (simp add: x_def quantum_def i_def)
  then have "x / quantum x = of_int (m * 2 ^ nat (j - i)) * quantum x / quantum x"
    by simp
  also have "\<dots> = of_int (m * 2 ^ nat (j - i))"
    using quantum_pos [of x] by simp
  finally have "x / quantum x = of_int (m * 2 ^ nat (j - i))" .
  then have "roundTiesToEven (x / quantum x) = m * 2 ^ nat (j - i)"
    by (simp only: roundTiesToEven_of_int)
  then have "NumberValue x = of_int (m * 2 ^ nat (j - i)) * quantum x"
    using x by (simp add: NumberValue_def)
  also have "\<dots> = x / quantum x * quantum x"
    using \<open>x / quantum x = of_int (m * 2 ^ nat (j - i))\<close> by simp
  also have "\<dots> = x"
    using quantum_pos [of x] by simp
  finally show ?thesis
    by (simp add: x_def)
qed

lemma NumberValue_representable:
  assumes "emin \<le> j" and "\<bar>m\<bar> \<le> 2 ^ 53"
  shows "NumberValue (of_int m * 2 powi j) = of_int m * 2 powi j"
proof (cases "\<bar>m\<bar> < 2 ^ 53")
  case True
  with assms(1) show ?thesis
    by (rule NumberValue_representable_less)
next
  case False
  with assms(2) have "\<bar>m\<bar> = 2 ^ 53"
    by simp
  then have "m = 2 ^ 53 \<or> m = - (2 ^ 53)"
    by (auto simp: abs_if split: if_splits)
  then have "(of_int m :: rat) * 2 powi j = of_int (sgn m) * 2 powi (53 + j)"
    by (auto simp: power_int_add)
  moreover have "NumberValue (of_int (sgn m) * 2 powi (53 + j)) = of_int (sgn m) * 2 powi (53 + j)"
    using assms(1) by (intro NumberValue_representable_less) (simp_all add: sgn_if)
  ultimately show ?thesis
    by simp
qed

lemma NumberValue_of_int:
  assumes "\<bar>k\<bar> \<le> 2 ^ 53"
  shows "NumberValue (of_int k) = of_int k"
  using NumberValue_representable [of 0 k] assms by (simp add: emin_def)

lemma onGrid_add: "onGrid a \<Longrightarrow> onGrid b \<Longrightarrow> onGrid (a + b)"
  unfolding onGrid_def by (metis of_int_add distrib_right)

lemma NumberValue_subnormal:
  assumes "onGrid x" and "\<bar>x\<bar> < 2 powi (emin + 52)"
  shows "NumberValue x = x"
proof -
  from assms(1) obtain k :: int where k: "x = of_int k * 2 powi emin"
    unfolding onGrid_def by blast
  have "of_int \<bar>k\<bar> * (2::rat) powi emin < 2 powi (emin + 52)"
    using assms(2) by (simp add: k abs_mult)
  also have "\<dots> = of_int (2 ^ 52) * 2 powi emin"
    by (simp add: power_int_add)
  finally have "(of_int \<bar>k\<bar> :: rat) < of_int (2 ^ 52)"
    by (simp only: mult_less_cancel_right_pos zero_less_power_int zero_less_numeral)
  then have "\<bar>k\<bar> < 2 ^ 52"
    by (simp only: of_int_less_iff)
  then have "\<bar>k\<bar> \<le> 2 ^ 53"
    by simp
  then show ?thesis
    unfolding k by (intro NumberValue_representable) simp
qed

lemma Number_add_error:
  assumes "onGrid a" and "onGrid b"
  shows "\<bar>Number_add a b - (a + b)\<bar> \<le> u64 * \<bar>a + b\<bar>"
proof (cases "\<bar>a + b\<bar> < 2 powi (emin + 52)")
  case True
  then have "NumberValue (a + b) = a + b"
    using onGrid_add [OF assms] by (intro NumberValue_subnormal)
  then show ?thesis
    by (simp add: Number_add_def u64_def)
next
  case False
  then show ?thesis
    unfolding Number_add_def by (intro NumberValue_error_normal) simp
qed

lemma isNumber_onGrid: "isNumber x \<Longrightarrow> onGrid x"
  using onGrid_NumberValue [of x] by (simp add: isNumber_def)


subsection \<open>Computing Number values\<close>

text \<open>
  The Number value of \<open>x\<close> from the exponent \<open>i\<close> of \<open>x\<close> and the significand \<open>m\<close>: it is
  \<open>m * 2^(i - 52)\<close> (or \<open>m * 2^(- 1074)\<close>) when \<open>m\<close> is the nearest integer to the quotient
  of \<open>x\<close> by the quantum, or the even one of the two nearest.
\<close>

lemma ilog2_unique:
  assumes "2 powi i \<le> \<bar>x\<bar>" and "\<bar>x\<bar> < 2 powi (i + 1)"
  shows "ilog2 x = i"
proof -
  have "(0::rat) < 2 powi i"
    by simp
  with assms(1) have "0 < \<bar>x\<bar>"
    by linarith
  then have x: "x \<noteq> 0"
    by simp
  have "i < ilog2 x + 1"
    using pow2_less_cancel [OF assms(1) ilog2_bounds(2) [OF x]] .
  moreover have "ilog2 x < i + 1"
    using pow2_less_cancel [OF ilog2_bounds(1) [OF x] assms(2)] .
  ultimately show ?thesis
    by simp
qed

lemma roundTiesToEven_eqI:
  assumes "\<bar>y - of_int m\<bar> < 1 / 2 \<or> (\<bar>y - of_int m\<bar> = 1 / 2 \<and> even m)"
  shows "roundTiesToEven y = m"
proof -
  consider "\<bar>y - of_int m\<bar> < 1 / 2" | "y = of_int m + 1 / 2" "even m"
    | "y = of_int m - 1 / 2" "even m"
    using assms by (auto simp: abs_if split: if_splits)
  then show ?thesis
  proof cases
    case 1
    have "\<bar>of_int (roundTiesToEven y) - (of_int m :: rat)\<bar> < 1"
      using roundTiesToEven_error [of y] 1 by linarith
    then have "\<bar>(of_int (roundTiesToEven y - m) :: rat)\<bar> < of_int 1"
      by simp
    then have "\<bar>roundTiesToEven y - m\<bar> < 1"
      by (simp only: of_int_abs [symmetric] of_int_less_iff)
    then show ?thesis
      by simp
  next
    case 2
    have "\<lfloor>y\<rfloor> = m"
      unfolding 2(1) by (simp add: floor_unique)
    with 2 show ?thesis
      by (simp add: roundTiesToEven_def)
  next
    case 3
    have "\<lfloor>y\<rfloor> = m - 1"
      unfolding 3(1) by (simp add: floor_unique)
    with 3 show ?thesis
      by (simp add: roundTiesToEven_def)
  qed
qed

lemma NumberValue_eqI:
  assumes "2 powi i \<le> \<bar>x\<bar>" and "\<bar>x\<bar> < 2 powi (i + 1)"
    and "\<bar>x / 2 powi (max (i - 52) emin) - of_int m\<bar> < 1 / 2 \<or>
      (\<bar>x / 2 powi (max (i - 52) emin) - of_int m\<bar> = 1 / 2 \<and> even m)"
  shows "NumberValue x = of_int m * 2 powi (max (i - 52) emin)"
proof -
  have "(0::rat) < 2 powi i"
    by simp
  with assms(1) have "0 < \<bar>x\<bar>"
    by linarith
  then have x: "x \<noteq> 0"
    by simp
  then show ?thesis
    by (simp add: NumberValue_def quantum_def ilog2_unique [OF assms(1,2)]
        roundTiesToEven_eqI [OF assms(3)])
qed

section \<open>Properties of aggregateByField\<close>

subsection \<open>Dictionaries\<close>

lemma Map_get_Map_set:
  "Map_get (Map_set k v m) k' = (if k' = k then Some v else Map_get m k')"
  by (induction m) (auto simp: Map_get_def)

lemma keys_Map_set:
  "k \<in> set (map fst m) \<Longrightarrow> map fst (Map_set k v m) = map fst m"
  by (induction m) auto

lemma keys_Map_set_new:
  "k \<notin> set (map fst m) \<Longrightarrow> map fst (Map_set k v m) = map fst m @ [k]"
  by (induction m) auto

lemma Map_get_Nil: "Map_get [] k = None"
  by (simp add: Map_get_def)

lemma Map_get_Some_iff:
  "distinct (map fst m) \<Longrightarrow> Map_get m k = Some v \<longleftrightarrow> (k, v) \<in> set m"
  by (simp add: Map_get_def)

lemma set_Map_set: "set (Map_set k v m) \<subseteq> insert (k, v) (set m)"
  by (induction m) auto


lemma orZero_Some [simp]: "orZero (Some v) = v"
  by (simp add: orZero_def)

lemma orZero_None [simp]: "orZero None = 0"
  by (simp add: orZero_def)

lemma sum_Map_set:
  "sum_list (map snd (Map_set k v m)) = sum_list (map snd m) - orZero (Map_get m k) + v"
  by (induction m) (auto simp: Map_get_def)

lemma sum_abs_Map_set:
  "sum_list (map (\<lambda>e. \<bar>snd e\<bar>) (Map_set k v m)) =
     sum_list (map (\<lambda>e. \<bar>snd e\<bar>) m) - \<bar>orZero (Map_get m k)\<bar> + \<bar>v\<bar>"
  by (induction m) (auto simp: Map_get_def)

lemma abs_orZero_le: "\<bar>orZero (Map_get m k)\<bar> \<le> sum_list (map (\<lambda>e. \<bar>snd e\<bar>) m)"
proof (induction m)
  case Nil
  show ?case by (simp add: Map_get_def)
next
  case (Cons e m)
  have "0 \<le> sum_list (map (\<lambda>e. \<bar>snd e\<bar>) m)"
    by (rule sum_list_nonneg) auto
  with Cons show ?case
    by (auto simp: Map_get_def)
qed

subsection \<open>Sums of Numbers\<close>

lemma Number_sum_Nil: "Number_sum [] = 0"
  by (simp add: Number_sum_def)

lemma Number_sum_snoc: "Number_sum (xs @ [x]) = Number_add (Number_sum xs) x"
  by (simp add: Number_sum_def)

lemma onGrid_zero: "onGrid 0"
  unfolding onGrid_def by (rule exI [of _ 0]) simp

lemma onGrid_Number_add: "onGrid (Number_add a b)"
  unfolding Number_add_def by (rule onGrid_NumberValue)

lemma onGrid_Number_sum: "onGrid (Number_sum xs)"
  by (cases xs rule: rev_cases) (simp_all add: Number_sum_Nil onGrid_zero Number_sum_snoc onGrid_Number_add)

subsection \<open>The state of the aggregation loop\<close>

lemma fst_aggregateStep:
  "fst (aggregateStep toStr field s d) =
     Map_set (fieldString toStr field d)
       (Number_add (orZero (Map_get (fst s) (fieldString toStr field d))) (amount d)) (fst s)"
  by (simp add: aggregateStep_def Let_def)

lemma snd_aggregateStep:
  "snd (aggregateStep toStr field s d) = Number_add (snd s) (amount d)"
  by (simp add: aggregateStep_def Let_def)

lemma aggregate_groups:
  "Map_get (fst (foldl (aggregateStep toStr field) ([], 0) data)) k =
     (if k \<in> fieldString toStr field ` set data
      then Some (Number_sum (map amount (filter (\<lambda>d. fieldString toStr field d = k) data)))
      else None)"
proof (induction data arbitrary: k rule: rev_induct)
  case Nil
  show ?case by (simp add: Map_get_Nil)
next
  case (snoc d data)
  let ?key = "fieldString toStr field"
  let ?s = "foldl (aggregateStep toStr field) ([], 0) data"
  have old: "orZero (Map_get (fst ?s) (?key d)) =
      Number_sum (map amount (filter (\<lambda>d'. ?key d' = ?key d) data))"
  proof (cases "?key d \<in> ?key ` set data")
    case True
    then show ?thesis by (simp add: snoc.IH)
  next
    case False
    then have "filter (\<lambda>d'. ?key d' = ?key d) data = []"
      unfolding filter_empty_conv by (metis imageI)
    with False show ?thesis
      by (simp add: snoc.IH Number_sum_Nil)
  qed
  show ?case
  proof (cases "k = ?key d")
    case True
    then show ?thesis
      by (simp add: fst_aggregateStep Map_get_Map_set old Number_sum_snoc)
  next
    case False
    then show ?thesis
      by (auto simp: fst_aggregateStep Map_get_Map_set snoc.IH)
  qed
qed

lemma aggregate_total:
  "snd (foldl (aggregateStep toStr field) ([], 0) data) = Number_sum (map amount data)"
  by (induction data rule: rev_induct)
    (simp_all add: Number_sum_Nil Number_sum_snoc snd_aggregateStep)

lemma keys_Map_set_distinct:
  assumes "distinct (map fst m)"
  shows "distinct (map fst (Map_set k v m)) \<and>
    set (map fst (Map_set k v m)) = insert k (set (map fst m))"
proof (cases "k \<in> set (map fst m)")
  case True
  with assms show ?thesis
    by (auto simp only: keys_Map_set)
next
  case False
  with assms show ?thesis
    by (simp add: keys_Map_set_new)
qed

lemma aggregate_keys:
  "distinct (map fst (fst (foldl (aggregateStep toStr field) ([], 0) data))) \<and>
   set (map fst (fst (foldl (aggregateStep toStr field) ([], 0) data))) =
     fieldString toStr field ` set data"
proof (induction data rule: rev_induct)
  case Nil
  show ?case by simp
next
  case (snoc d data)
  let ?s = "foldl (aggregateStep toStr field) ([], 0) data"
  from snoc have "distinct (map fst (fst ?s))"
    by blast
  from keys_Map_set_distinct [OF this] snoc show ?case
    by (simp add: fst_aggregateStep)
qed


lemma aggregate_entries:
  assumes "e \<in> set (fst (foldl (aggregateStep toStr field) ([], 0) data))"
  shows "snd e = Number_sum (map amount (filter (\<lambda>d. fieldString toStr field d = fst e) data))"
proof -
  let ?m = "fst (foldl (aggregateStep toStr field) ([], 0) data)"
  have "distinct (map fst ?m)"
    using aggregate_keys [of toStr field data] by blast
  moreover from assms have "(fst e, snd e) \<in> set ?m"
    by simp
  ultimately have "Map_get ?m (fst e) = Some (snd e)"
    by (simp only: Map_get_Some_iff)
  then show ?thesis
    by (simp add: aggregate_groups split: if_splits)
qed


subsection \<open>Rounding errors of the sums\<close>

lemma u64_pos: "0 < u64"
  by (simp add: u64_def)

lemma one_le_growth: "1 \<le> (1 + u64) ^ n"
  using u64_pos by (intro one_le_power) simp

lemma step_bound:
  fixes W D A a u P W' D' :: rat
  assumes u: "0 \<le> u" and P: "1 \<le> P"
    and W: "W \<le> P * A" and D: "D \<le> (P - 1) * A"
    and W': "W' \<le> W + \<bar>a\<bar> + u * (W + \<bar>a\<bar>)" and D': "D' \<le> D + u * (W + \<bar>a\<bar>)"
  shows "W' \<le> (P * (1 + u)) * (A + \<bar>a\<bar>)" and "D' \<le> (P * (1 + u) - 1) * (A + \<bar>a\<bar>)"
proof -
  have "1 * \<bar>a\<bar> \<le> P * \<bar>a\<bar>"
    using P by (intro mult_right_mono) simp_all
  with W have Wa: "W + \<bar>a\<bar> \<le> P * (A + \<bar>a\<bar>)"
    by (simp add: distrib_left)
  have uWa: "u * (W + \<bar>a\<bar>) \<le> u * (P * (A + \<bar>a\<bar>))"
    using Wa u by (rule mult_left_mono)
  have "W' \<le> P * (A + \<bar>a\<bar>) + u * (P * (A + \<bar>a\<bar>))"
    using W' Wa uWa by linarith
  also have "\<dots> = (P * (1 + u)) * (A + \<bar>a\<bar>)"
    by (simp add: algebra_simps)
  finally show "W' \<le> (P * (1 + u)) * (A + \<bar>a\<bar>)" .
  have "0 \<le> (P - 1) * \<bar>a\<bar>"
    using P by (intro mult_nonneg_nonneg) simp_all
  then have "(P - 1) * A \<le> (P - 1) * (A + \<bar>a\<bar>)"
    by (simp add: distrib_left)
  with D D' uWa have "D' \<le> (P - 1) * (A + \<bar>a\<bar>) + u * (P * (A + \<bar>a\<bar>))"
    by linarith
  also have "\<dots> = (P * (1 + u) - 1) * (A + \<bar>a\<bar>)"
    by (simp add: algebra_simps)
  finally show "D' \<le> (P * (1 + u) - 1) * (A + \<bar>a\<bar>)" .
qed

lemma add_step:
  fixes W :: rat
  assumes grid: "onGrid v" "onGrid a" and v: "\<bar>v\<bar> \<le> W"
  shows "\<bar>Number_add v a\<bar> - \<bar>v\<bar> \<le> \<bar>a\<bar> + u64 * (W + \<bar>a\<bar>)"
    and "\<bar>Number_add v a - (v + a)\<bar> \<le> u64 * (W + \<bar>a\<bar>)"
proof -
  have "\<bar>v + a\<bar> \<le> W + \<bar>a\<bar>"
    using v by linarith
  then have "u64 * \<bar>v + a\<bar> \<le> u64 * (W + \<bar>a\<bar>)"
    using u64_pos by (intro mult_left_mono) simp_all
  with Number_add_error [OF grid]
  show err: "\<bar>Number_add v a - (v + a)\<bar> \<le> u64 * (W + \<bar>a\<bar>)"
    by linarith
  then show "\<bar>Number_add v a\<bar> - \<bar>v\<bar> \<le> \<bar>a\<bar> + u64 * (W + \<bar>a\<bar>)"
    by linarith
qed

lemma onGrid_orZero_aggregate:
  "onGrid (orZero (Map_get (fst (foldl (aggregateStep toStr field) ([], 0) data)) k))"
  by (simp add: aggregate_groups onGrid_Number_sum onGrid_zero)

lemma aggregate_bounds:
  assumes "\<forall>d\<in>set data. onGrid (amount d)"
  shows "sum_list (map (\<lambda>e. \<bar>snd e\<bar>) (fst (foldl (aggregateStep toStr field) ([], 0) data)))
      \<le> (1 + u64) ^ length data * sum_list (map (\<lambda>d. \<bar>amount d\<bar>) data)
    \<and> \<bar>sum_list (map snd (fst (foldl (aggregateStep toStr field) ([], 0) data)))
        - sum_list (map amount data)\<bar>
      \<le> ((1 + u64) ^ length data - 1) * sum_list (map (\<lambda>d. \<bar>amount d\<bar>) data)"
  using assms
proof (induction data rule: rev_induct)
  case Nil
  show ?case by simp
next
  case (snoc d data)
  let ?s = "foldl (aggregateStep toStr field) ([], 0) data"
  let ?k = "fieldString toStr field d"
  define W where "W = sum_list (map (\<lambda>e. \<bar>snd e\<bar>) (fst ?s))"
  define V where "V = sum_list (map snd (fst ?s))"
  define S where "S = sum_list (map amount data)"
  define A where "A = sum_list (map (\<lambda>d. \<bar>amount d\<bar>) data)"
  define v where "v = orZero (Map_get (fst ?s) ?k)"
  define a where "a = amount d"
  define P where "P = (1 + u64) ^ length data"
  have grid: "onGrid v" "onGrid a"
    using snoc.prems by (simp_all add: v_def a_def onGrid_orZero_aggregate)
  have "\<forall>d\<in>set data. onGrid (amount d)"
    using snoc.prems by simp
  then have W: "W \<le> P * A" and D: "\<bar>V - S\<bar> \<le> (P - 1) * A"
    using snoc.IH by (simp_all add: W_def V_def S_def A_def P_def)
  have vW: "\<bar>v\<bar> \<le> W"
    unfolding v_def W_def by (rule abs_orZero_le)
  note step = add_step [OF grid vW]
  have m': "fst (foldl (aggregateStep toStr field) ([], 0) (data @ [d])) =
      Map_set ?k (Number_add v a) (fst ?s)"
    by (simp add: fst_aggregateStep v_def a_def)
  have W': "sum_list (map (\<lambda>e. \<bar>snd e\<bar>) (Map_set ?k (Number_add v a) (fst ?s))) =
      W - \<bar>v\<bar> + \<bar>Number_add v a\<bar>"
    by (simp add: sum_abs_Map_set W_def v_def)
  have V': "sum_list (map snd (Map_set ?k (Number_add v a) (fst ?s))) = V - v + Number_add v a"
    by (simp add: sum_Map_set V_def v_def)
  have 1: "W - \<bar>v\<bar> + \<bar>Number_add v a\<bar> \<le> W + \<bar>a\<bar> + u64 * (W + \<bar>a\<bar>)"
    using step(1) by linarith
  have 2: "\<bar>(V - v + Number_add v a) - (S + a)\<bar> \<le> \<bar>V - S\<bar> + u64 * (W + \<bar>a\<bar>)"
    using step(2) by linarith
  have u: "0 \<le> u64"
    using u64_pos by simp
  have P1: "1 \<le> P"
    unfolding P_def by (rule one_le_growth)
  note bounds = step_bound [OF u P1 W D 1 2]
  have P': "(1 + u64) ^ length (data @ [d]) = P * (1 + u64)"
    by (simp add: P_def)
  have A': "sum_list (map (\<lambda>d. \<bar>amount d\<bar>) (data @ [d])) = A + \<bar>a\<bar>"
    by (simp add: A_def a_def)
  have S': "sum_list (map amount (data @ [d])) = S + a"
    by (simp add: S_def a_def)
  show ?case
    unfolding m' W' V' P' A' S' using bounds by (rule conjI)
qed



subsection \<open>Whole amounts\<close>

lemma Number_add_Ints:
  assumes "a \<in> \<int>" and "b \<in> \<int>" and "\<bar>a + b\<bar> \<le> 2 ^ 53"
  shows "Number_add a b = a + b"
proof -
  from assms(1,2) have "a + b \<in> \<int>"
    by simp
  then obtain k :: int where k: "a + b = of_int k"
    by (rule Ints_cases)
  with assms(3) have "(of_int \<bar>k\<bar> :: rat) \<le> of_int (2 ^ 53)"
    by simp
  then have "\<bar>k\<bar> \<le> 2 ^ 53"
    by (simp only: of_int_le_iff)
  then show ?thesis
    unfolding Number_add_def k by (rule NumberValue_of_int)
qed

lemma orZero_Ints:
  assumes "\<forall>e\<in>set m. snd e \<in> \<int>"
  shows "orZero (Map_get m k) \<in> \<int>"
proof (cases "Map_get m k")
  case None
  then show ?thesis by simp
next
  case (Some v)
  then have "(k, v) \<in> set m"
    unfolding Map_get_def by (rule map_of_SomeD)
  with assms Some show ?thesis
    by force
qed

lemma abs_sum_list_le:
  fixes f :: "'a \<Rightarrow> rat"
  shows "\<bar>sum_list (map f xs)\<bar> \<le> sum_list (map (\<lambda>x. \<bar>f x\<bar>) xs)"
  by (induction xs) (simp_all add: abs_triangle_ineq [THEN order_trans])

lemma aggregate_exact:
  assumes "\<forall>d\<in>set data. amount d \<in> \<int>"
    and "sum_list (map (\<lambda>d. \<bar>amount d\<bar>) data) \<le> 2 ^ 53"
  shows "(\<forall>e\<in>set (fst (foldl (aggregateStep toStr field) ([], 0) data)). snd e \<in> \<int>)
    \<and> sum_list (map (\<lambda>e. \<bar>snd e\<bar>) (fst (foldl (aggregateStep toStr field) ([], 0) data)))
        \<le> sum_list (map (\<lambda>d. \<bar>amount d\<bar>) data)
    \<and> sum_list (map snd (fst (foldl (aggregateStep toStr field) ([], 0) data)))
        = sum_list (map amount data)"
  using assms
proof (induction data rule: rev_induct)
  case Nil
  show ?case by simp
next
  case (snoc d data)
  let ?s = "foldl (aggregateStep toStr field) ([], 0) data"
  let ?k = "fieldString toStr field d"
  define W where "W = sum_list (map (\<lambda>e. \<bar>snd e\<bar>) (fst ?s))"
  define V where "V = sum_list (map snd (fst ?s))"
  define S where "S = sum_list (map amount data)"
  define A where "A = sum_list (map (\<lambda>d. \<bar>amount d\<bar>) data)"
  define v where "v = orZero (Map_get (fst ?s) ?k)"
  define a where "a = amount d"
  have small: "A + \<bar>a\<bar> \<le> 2 ^ 53"
    using snoc.prems(2) by (simp add: A_def a_def)
  then have "A \<le> 2 ^ 53"
    by linarith
  moreover have "\<forall>d\<in>set data. amount d \<in> \<int>"
    using snoc.prems(1) by simp
  ultimately have ints: "\<forall>e\<in>set (fst ?s). snd e \<in> \<int>" and W: "W \<le> A" and V: "V = S"
    using snoc.IH by (simp_all add: W_def V_def S_def A_def)
  have v: "v \<in> \<int>"
    unfolding v_def using ints by (rule orZero_Ints)
  have a: "a \<in> \<int>"
    using snoc.prems(1) by (simp add: a_def)
  have vW: "\<bar>v\<bar> \<le> W"
    unfolding v_def W_def by (rule abs_orZero_le)
  have "\<bar>v + a\<bar> \<le> 2 ^ 53"
    using vW W small by linarith
  with v a have exact: "Number_add v a = v + a"
    by (rule Number_add_Ints)
  have m': "fst (foldl (aggregateStep toStr field) ([], 0) (data @ [d])) =
      Map_set ?k (v + a) (fst ?s)"
    by (simp add: fst_aggregateStep v_def [symmetric] a_def [symmetric] exact)
  have W': "sum_list (map (\<lambda>e. \<bar>snd e\<bar>) (Map_set ?k (v + a) (fst ?s))) = W - \<bar>v\<bar> + \<bar>v + a\<bar>"
    by (simp add: sum_abs_Map_set W_def v_def)
  have V': "sum_list (map snd (Map_set ?k (v + a) (fst ?s))) = V - v + (v + a)"
    by (simp add: sum_Map_set V_def v_def)
  have A': "sum_list (map (\<lambda>d. \<bar>amount d\<bar>) (data @ [d])) = A + \<bar>a\<bar>"
    by (simp add: A_def a_def)
  have S': "sum_list (map amount (data @ [d])) = S + a"
    by (simp add: S_def a_def)
  have "\<forall>e\<in>set (Map_set ?k (v + a) (fst ?s)). snd e \<in> \<int>"
    using set_Map_set [of ?k "v + a" "fst ?s"] ints v a by auto
  moreover have "W - \<bar>v\<bar> + \<bar>v + a\<bar> \<le> A + \<bar>a\<bar>"
    using W by linarith
  moreover have "V - v + (v + a) = S + a"
    using V by simp
  ultimately show ?case
    unfolding m' W' V' A' S' by blast
qed

lemma total_exact:
  assumes "\<forall>d\<in>set data. amount d \<in> \<int>"
    and "sum_list (map (\<lambda>d. \<bar>amount d\<bar>) data) \<le> 2 ^ 53"
  shows "Number_sum (map amount data) = sum_list (map amount data)"
  using assms
proof (induction data rule: rev_induct)
  case Nil
  show ?case by (simp add: Number_sum_Nil)
next
  case (snoc d data)
  define S where "S = sum_list (map amount data)"
  define A where "A = sum_list (map (\<lambda>d. \<bar>amount d\<bar>) data)"
  define a where "a = amount d"
  have small: "A + \<bar>a\<bar> \<le> 2 ^ 53"
    using snoc.prems(2) by (simp add: A_def a_def)
  then have "A \<le> 2 ^ 53"
    by linarith
  moreover have ints: "\<forall>d\<in>set data. amount d \<in> \<int>"
    using snoc.prems(1) by simp
  ultimately have T: "Number_sum (map amount data) = S"
    using snoc.IH by (simp add: S_def A_def)
  have "S \<in> \<int>"
    unfolding S_def using ints by (induction data) simp_all
  moreover have "a \<in> \<int>"
    using snoc.prems(1) by (simp add: a_def)
  moreover have "\<bar>S\<bar> \<le> A"
    unfolding S_def A_def by (rule abs_sum_list_le)
  then have "\<bar>S + a\<bar> \<le> 2 ^ 53"
    using small by linarith
  ultimately have "Number_add S a = S + a"
    by (rule Number_add_Ints)
  then show ?case
    by (simp add: Number_sum_snoc T S_def [symmetric] a_def [symmetric])
qed

subsection \<open>The results are Numbers\<close>

lemma roundTiesToEven_le:
  assumes "y \<le> of_int N"
  shows "roundTiesToEven y \<le> N"
proof -
  have f: "\<lfloor>y\<rfloor> \<le> N"
    using assms by (simp add: floor_le_iff)
  show ?thesis
  proof (cases "y - of_int \<lfloor>y\<rfloor> < 1 / 2")
    case True
    with f show ?thesis
      by (simp add: roundTiesToEven_def Let_def)
  next
    case False
    then have "of_int \<lfloor>y\<rfloor> < y"
      by linarith
    with assms have "(of_int \<lfloor>y\<rfloor> :: rat) < of_int N"
      by linarith
    then have "\<lfloor>y\<rfloor> < N"
      by (simp only: of_int_less_iff)
    then have "\<lfloor>y\<rfloor> + 1 \<le> N"
      by simp
    with f show ?thesis
      by (simp add: roundTiesToEven_def Let_def)
  qed
qed

lemma roundTiesToEven_ge:
  assumes "of_int N \<le> y"
  shows "N \<le> roundTiesToEven y"
proof -
  have "N \<le> \<lfloor>y\<rfloor>"
    using assms by (simp add: le_floor_iff)
  then show ?thesis
    by (simp add: roundTiesToEven_def Let_def)
qed

lemma NumberValue_idem: "NumberValue (NumberValue x) = NumberValue x"
proof (cases "x = 0")
  case True
  then show ?thesis
    by (simp add: NumberValue_def)
next
  case False
  define j where "j = max (ilog2 x - 52) emin"
  define m where "m = roundTiesToEven (x / quantum x)"
  have q: "quantum x = 2 powi j"
    by (simp add: quantum_def j_def)
  have "ilog2 x + 1 = 53 + (ilog2 x - 52)"
    by simp
  then have "(2::rat) powi (ilog2 x + 1) = 2 powi (53 + (ilog2 x - 52))"
    by (rule arg_cong)
  also have "\<dots> = 2 ^ 53 * 2 powi (ilog2 x - 52)"
    by (simp only: pow2_add) simp
  also have "\<dots> \<le> 2 ^ 53 * 2 powi j"
    by (intro mult_left_mono power_int_increasing) (simp_all add: j_def)
  finally have "\<bar>x\<bar> < 2 ^ 53 * quantum x"
    using ilog2_bounds(2) [OF False] by (simp add: q)
  then have "\<bar>x / quantum x\<bar> < 2 ^ 53"
    using quantum_pos [of x] by (simp add: abs_divide pos_divide_less_eq abs_of_pos)
  moreover define y where "y = x / quantum x"
  ultimately have "\<bar>y\<bar> < 2 ^ 53"
    by simp
  then have y: "y \<le> of_int (2 ^ 53)" "of_int (- (2 ^ 53)) \<le> y"
    by (simp_all add: abs_less_iff)
  have "roundTiesToEven y \<le> 2 ^ 53" and "- (2 ^ 53) \<le> roundTiesToEven y"
    using roundTiesToEven_le [OF y(1)] roundTiesToEven_ge [OF y(2)] by blast+
  then have "m \<le> 2 ^ 53" and "- (2 ^ 53) \<le> m"
    by (simp_all add: m_def y_def)
  then have m: "\<bar>m\<bar> \<le> 2 ^ 53"
    by (simp add: abs_le_iff)
  have "emin \<le> j"
    by (simp add: j_def)
  from NumberValue_representable [OF this m]
  show ?thesis
    using False by (simp add: NumberValue_def m_def q)
qed

lemma Number_sum_idem: "NumberValue (Number_sum xs) = Number_sum xs"
  by (cases xs rule: rev_cases)
    (simp_all add: Number_sum_Nil NumberValue_zero Number_sum_snoc Number_add_def NumberValue_idem)

lemma isNumber_Number_sum:
  "\<bar>Number_sum xs\<bar> < 2 ^ 1024 \<Longrightarrow> isNumber (Number_sum xs)"
  by (simp add: isNumber_def Number_sum_idem)

subsection \<open>The growth factor\<close>

lemma growth_linear:
  fixes u :: rat
  assumes "0 \<le> u" and "2 * of_nat n * u \<le> 1"
  shows "(1 + u) ^ n \<le> 1 + 2 * of_nat n * u"
  using assms(2)
proof (induction n)
  case 0
  show ?case by simp
next
  case (Suc n)
  have nu: "0 \<le> of_nat n * u"
    using assms(1) by simp
  from Suc.prems have small: "2 * of_nat n * u + 2 * u \<le> 1"
    by (simp add: algebra_simps)
  with assms(1) have "2 * of_nat n * u \<le> 1"
    by linarith
  then have IH: "(1 + u) ^ n \<le> 1 + 2 * of_nat n * u"
    by (rule Suc.IH)
  have "(1 + u) ^ Suc n = (1 + u) ^ n * (1 + u)"
    by simp
  also have "\<dots> \<le> (1 + 2 * of_nat n * u) * (1 + u)"
    using IH assms(1) by (intro mult_right_mono) simp_all
  also have "\<dots> = 1 + 2 * of_nat n * u + u + (2 * of_nat n * u) * u"
    by (simp add: algebra_simps)
  also have "(2 * of_nat n * u) * u \<le> 1 * u"
    using small assms(1) nu by (intro mult_right_mono) linarith+
  finally show ?case
    by (simp add: algebra_simps)
qed

lemma growth_u64:
  assumes "n \<le> 2 ^ 52"
  shows "(1 + u64) ^ n - 1 \<le> of_nat n * 2 powi (- 52)"
proof -
  have "(of_nat n :: rat) \<le> of_nat (2 ^ 52)"
    using assms by (simp only: of_nat_le_iff)
  then have "(of_nat n :: rat) \<le> 2 ^ 52"
    by simp
  then have "2 * of_nat n * u64 \<le> 2 * 2 ^ 52 * u64"
    using u64_pos by (intro mult_right_mono mult_left_mono) simp_all
  also have "\<dots> = 1"
    by (simp add: u64_def power_int_minus_divide)
  finally have "(1 + u64) ^ n \<le> 1 + 2 * of_nat n * u64"
    using u64_pos by (intro growth_linear) simp_all
  moreover have "(2::rat) * of_nat n * u64 = of_nat n * 2 powi (- 52)"
    by (simp add: u64_def power_int_minus_divide)
  ultimately show ?thesis
    by simp
qed


subsection \<open>Rounding errors of the percentages\<close>






subsection \<open>The points returned\<close>

lemma sum_list_insort_key:
  fixes f :: "'a \<Rightarrow> rat"
  shows "sum_list (map f (insort_key g x xs)) = f x + sum_list (map f xs)"
  by (induction xs) simp_all

lemma sum_list_sort_key:
  fixes f :: "'a \<Rightarrow> rat"
  shows "sum_list (map f (sort_key g xs)) = sum_list (map f xs)"
  by (induction xs) (simp_all add: sum_list_insort_key)

lemma distinct_map_sort_key: "distinct (map f (sort_key k xs)) = distinct (map f xs)"
  by (simp add: distinct_map)

lemma aggregateByField_sorted_points:
  "aggregateByField toStr data field =
     sort_key (\<lambda>p. - value' p)
       (map (\<lambda>e. \<lparr>name = fst e, value' = snd e,
                   percentage = (if 0 < Number_sum (map amount data)
                                 then Number_multiply
                                   (Number_divide (snd e) (Number_sum (map amount data))) 100
                                 else 0)\<rparr>)
          (fst (foldl (aggregateStep toStr field) ([], 0) data)))"
  unfolding aggregateByField_def Let_def aggregate_total by (rule refl)

lemma aggregateByField_values:
  "sum_list (map value' (aggregateByField toStr data field)) =
     sum_list (map snd (fst (foldl (aggregateStep toStr field) ([], 0) data)))"
  by (simp add: aggregateByField_sorted_points sum_list_sort_key comp_def)


lemma aggregateByField_names:
  "distinct (map name (aggregateByField toStr data field)) =
     distinct (map fst (fst (foldl (aggregateStep toStr field) ([], 0) data)))"
  "set (map name (aggregateByField toStr data field)) =
     set (map fst (fst (foldl (aggregateStep toStr field) ([], 0) data)))"
  by (simp_all add: aggregateByField_sorted_points distinct_map_sort_key comp_def image_image)

lemma aggregateByField_point:
  assumes "p \<in> set (aggregateByField toStr data field)"
  shows "\<exists>e\<in>set (fst (foldl (aggregateStep toStr field) ([], 0) data)).
      name p = fst e \<and> value' p = snd e \<and>
      percentage p = (if 0 < Number_sum (map amount data)
                      then Number_multiply (Number_divide (snd e) (Number_sum (map amount data))) 100
                      else 0)"
proof -
  from assms obtain e where e: "e \<in> set (fst (foldl (aggregateStep toStr field) ([], 0) data))"
    and p: "p = \<lparr>name = fst e, value' = snd e,
      percentage = (if 0 < Number_sum (map amount data)
                    then Number_multiply (Number_divide (snd e) (Number_sum (map amount data))) 100
                    else 0)\<rparr>"
    unfolding aggregateByField_sorted_points by auto
  from p have "name p = fst e \<and> value' p = snd e \<and>
      percentage p = (if 0 < Number_sum (map amount data)
                      then Number_multiply (Number_divide (snd e) (Number_sum (map amount data))) 100
                      else 0)"
    by simp
  with e show ?thesis
    by blast
qed

lemma aggregateByField_groups:
  "distinct (map name (aggregateByField toStr data field))
   \<and> set (map name (aggregateByField toStr data field)) = fieldString toStr field ` set data
   \<and> (\<forall>p\<in>set (aggregateByField toStr data field).
        value' p = Number_sum (map amount
          (filter (\<lambda>d. fieldString toStr field d = name p) data)))"
proof (intro conjI ballI)
  let ?m = "fst (foldl (aggregateStep toStr field) ([], 0) data)"
  note keys = aggregate_keys [of toStr field data]
  from keys show "distinct (map name (aggregateByField toStr data field))"
    by (simp only: aggregateByField_names)
  have "set (map name (aggregateByField toStr data field)) = set (map fst ?m)"
    by (rule aggregateByField_names)
  with keys show "set (map name (aggregateByField toStr data field)) =
      fieldString toStr field ` set data"
    by simp
next
  fix p
  assume "p \<in> set (aggregateByField toStr data field)"
  from aggregateByField_point [OF this] obtain e where
    e: "e \<in> set (fst (foldl (aggregateStep toStr field) ([], 0) data))"
      and p: "name p = fst e" "value' p = snd e"
    by blast
  from aggregate_entries [OF e] p
  show "value' p = Number_sum (map amount
      (filter (\<lambda>d. fieldString toStr field d = name p) data))"
    by simp
qed

lemma abs_entry_le:
  fixes e :: "string \<times> rat"
  shows "e \<in> set m \<Longrightarrow> \<bar>snd e\<bar> \<le> sum_list (map (\<lambda>e. \<bar>snd e\<bar>) m)"
proof (induction m)
  case Nil
  then show ?case by simp
next
  case (Cons a m)
  have "0 \<le> sum_list (map (\<lambda>e. \<bar>snd e\<bar>) m)"
    by (rule sum_list_nonneg) auto
  with Cons show ?case
    by auto
qed

lemma isNumber_amounts_onGrid:
  "\<forall>d\<in>set data. isNumber (amount d) \<Longrightarrow> \<forall>d\<in>set data. onGrid (amount d)"
  by (simp add: isNumber_onGrid)




subsection \<open>Worked sums\<close>

text \<open>
  The Numbers of the sample data and the results of the operations on them, each with
  the exponent and the significand that \<open>NumberValue_eqI\<close> checks.
\<close>

lemma Number_729_64: "NumberValue (18241 / 25) = 6417981312723845 / 8796093022208"
  using NumberValue_eqI [of "9" "18241 / 25" "6417981312723845"]
  by (simp add: emin_def)

lemma Number_174_56: "NumberValue (4364 / 25) = 3070891995913257 / 17592186044416"
  using NumberValue_eqI [of "7" "4364 / 25" "6141783991826514"]
  by (simp add: emin_def)

lemma Number_379_60: "NumberValue (1898 / 5) = 3338996911230157 / 8796093022208"
  using NumberValue_eqI [of "8" "1898 / 5" "6677993822460314"]
  by (simp add: emin_def)

lemma Number_549_38: "NumberValue (27469 / 50) = 4832397584540631 / 8796093022208"
  using NumberValue_eqI [of "9" "27469 / 50" "4832397584540631"]
  by (simp add: emin_def)

lemma decimal_add_1: "Number_add 0 (6417981312723845 / 8796093022208) = 6417981312723845 / 8796093022208"
  unfolding Number_add_def
  using NumberValue_eqI [of "9" "0 + (6417981312723845 / 8796093022208)" "6417981312723845"]
  by (simp add: emin_def)

lemma decimal_add_2: "Number_add (6417981312723845 / 8796093022208) (3070891995913257 / 17592186044416) = 3976713655340237 / 4398046511104"
  unfolding Number_add_def
  using NumberValue_eqI [of "9" "(6417981312723845 / 8796093022208) + (3070891995913257 / 17592186044416)" "7953427310680474"]
  by (simp add: emin_def)

lemma decimal_add_3: "Number_add (3976713655340237 / 4398046511104) (4832397584540631 / 8796093022208) = 799114055951319 / 549755813888"
  unfolding Number_add_def
  using NumberValue_eqI [of "10" "(3976713655340237 / 4398046511104) + (4832397584540631 / 8796093022208)" "6392912447610552"]
  by (simp add: emin_def)

lemma decimal_add_4: "Number_add 0 (3338996911230157 / 8796093022208) = 3338996911230157 / 8796093022208"
  unfolding Number_add_def
  using NumberValue_eqI [of "8" "0 + (3338996911230157 / 8796093022208)" "6677993822460314"]
  by (simp add: emin_def)

lemma decimal_add_5: "Number_add (3976713655340237 / 4398046511104) (3338996911230157 / 8796093022208) = 1411553027738829 / 1099511627776"
  unfolding Number_add_def
  using NumberValue_eqI [of "10" "(3976713655340237 / 4398046511104) + (3338996911230157 / 8796093022208)" "5646212110955316"]
  by (simp add: emin_def)

lemma decimal_add_6: "Number_add (1411553027738829 / 1099511627776) (4832397584540631 / 8796093022208) = 251950340725801 / 137438953472"
  unfolding Number_add_def
  using NumberValue_eqI [of "10" "(1411553027738829 / 1099511627776) + (4832397584540631 / 8796093022208)" "8062410903225632"]
  by (simp add: emin_def)

lemma decimal_add_7: "Number_add 0 (799114055951319 / 549755813888) = 799114055951319 / 549755813888"
  unfolding Number_add_def
  using NumberValue_eqI [of "10" "0 + (799114055951319 / 549755813888)" "6392912447610552"]
  by (simp add: emin_def)

lemma decimal_add_8: "Number_add (799114055951319 / 549755813888) (3338996911230157 / 8796093022208) = 4031205451612815 / 2199023255552"
  unfolding Number_add_def
  using NumberValue_eqI [of "10" "(799114055951319 / 549755813888) + (3338996911230157 / 8796093022208)" "8062410903225630"]
  by (simp add: emin_def)

lemma decimal_div_1: "Number_divide (799114055951319 / 549755813888) (251950340725801 / 137438953472) = 7142061713910477 / 9007199254740992"
  unfolding Number_divide_def
  using NumberValue_eqI [of "- 1" "(799114055951319 / 549755813888) / (251950340725801 / 137438953472)" "7142061713910477"]
  by (simp add: emin_def)

lemma decimal_mul_1: "Number_multiply (7142061713910477 / 9007199254740992) 100 = 348733482124535 / 4398046511104"
  unfolding Number_multiply_def
  using NumberValue_eqI [of "6" "(7142061713910477 / 9007199254740992) * 100" "5579735713992560"]
  by (simp add: emin_def)

lemma decimal_div_2: "Number_divide (3338996911230157 / 8796093022208) (251950340725801 / 137438953472) = 7460550163322053 / 36028797018963968"
  unfolding Number_divide_def
  using NumberValue_eqI [of "- 3" "(3338996911230157 / 8796093022208) / (251950340725801 / 137438953472)" "7460550163322053"]
  by (simp add: emin_def)

lemma decimal_mul_2: "Number_multiply (7460550163322053 / 36028797018963968) 100 = 2914277407547677 / 140737488355328"
  unfolding Number_multiply_def
  using NumberValue_eqI [of "4" "(7460550163322053 / 36028797018963968) * 100" "5828554815095354"]
  by (simp add: emin_def)

lemma Number_0_1: "NumberValue (1 / 10) = 3602879701896397 / 36028797018963968"
  using NumberValue_eqI [of "- 4" "1 / 10" "7205759403792794"]
  by (simp add: emin_def)

lemma Number_0_2: "NumberValue (1 / 5) = 3602879701896397 / 18014398509481984"
  using NumberValue_eqI [of "- 3" "1 / 5" "7205759403792794"]
  by (simp add: emin_def)

lemma Number_minus_0_3: "NumberValue (- (3 / 10)) = - (5404319552844595 / 18014398509481984)"
  using NumberValue_eqI [of "- 2" "- (3 / 10)" "- 5404319552844595"]
  by (simp add: emin_def)

lemma cancelling_add_1: "Number_add 0 (3602879701896397 / 36028797018963968) = 3602879701896397 / 36028797018963968"
  unfolding Number_add_def
  using NumberValue_eqI [of "- 4" "0 + (3602879701896397 / 36028797018963968)" "7205759403792794"]
  by (simp add: emin_def)

lemma cancelling_add_2: "Number_add 0 (3602879701896397 / 18014398509481984) = 3602879701896397 / 18014398509481984"
  unfolding Number_add_def
  using NumberValue_eqI [of "- 3" "0 + (3602879701896397 / 18014398509481984)" "7205759403792794"]
  by (simp add: emin_def)

lemma cancelling_add_3: "Number_add 0 (- (5404319552844595 / 18014398509481984)) = - (5404319552844595 / 18014398509481984)"
  unfolding Number_add_def
  using NumberValue_eqI [of "- 2" "0 + (- (5404319552844595 / 18014398509481984))" "- 5404319552844595"]
  by (simp add: emin_def)

lemma cancelling_add_4: "Number_add (3602879701896397 / 36028797018963968) (3602879701896397 / 18014398509481984) = 1351079888211149 / 4503599627370496"
  unfolding Number_add_def
  using NumberValue_eqI [of "- 2" "(3602879701896397 / 36028797018963968) + (3602879701896397 / 18014398509481984)" "5404319552844596"]
  by (simp add: emin_def)

lemma cancelling_add_5: "Number_add (1351079888211149 / 4503599627370496) (- (5404319552844595 / 18014398509481984)) = 1 / 18014398509481984"
  unfolding Number_add_def
  using NumberValue_eqI [of "- 54" "(1351079888211149 / 4503599627370496) + (- (5404319552844595 / 18014398509481984))" "4503599627370496"]
  by (simp add: emin_def)

lemma cancelling_div_1: "Number_divide (3602879701896397 / 36028797018963968) (1 / 18014398509481984) = 3602879701896397 / 2"
  unfolding Number_divide_def
  using NumberValue_eqI [of "50" "(3602879701896397 / 36028797018963968) / (1 / 18014398509481984)" "7205759403792794"]
  by (simp add: emin_def)

lemma cancelling_mul_1: "Number_multiply (3602879701896397 / 2) 100 = 180143985094819840"
  unfolding Number_multiply_def
  using NumberValue_eqI [of "57" "(3602879701896397 / 2) * 100" "5629499534213120"]
  by (simp add: emin_def)

lemma cancelling_div_2: "Number_divide (3602879701896397 / 18014398509481984) (1 / 18014398509481984) = 3602879701896397"
  unfolding Number_divide_def
  using NumberValue_eqI [of "51" "(3602879701896397 / 18014398509481984) / (1 / 18014398509481984)" "7205759403792794"]
  by (simp add: emin_def)

lemma cancelling_mul_2: "Number_multiply 3602879701896397 100 = 360287970189639680"
  unfolding Number_multiply_def
  using NumberValue_eqI [of "58" "3602879701896397 * 100" "5629499534213120"]
  by (simp add: emin_def)

lemma cancelling_div_3: "Number_divide (- (5404319552844595 / 18014398509481984)) (1 / 18014398509481984) = - 5404319552844595"
  unfolding Number_divide_def
  using NumberValue_eqI [of "52" "(- (5404319552844595 / 18014398509481984)) / (1 / 18014398509481984)" "- 5404319552844595"]
  by (simp add: emin_def)

lemma cancelling_mul_3: "Number_multiply (- 5404319552844595) 100 = - 540431955284459520"
  unfolding Number_multiply_def
  using NumberValue_eqI [of "58" "(- 5404319552844595) * 100" "- 8444249301319680"]
  by (simp add: emin_def)

lemma thirds_div_1: "Number_divide 14 21 = 6004799503160661 / 9007199254740992"
  unfolding Number_divide_def
  using NumberValue_eqI [of "- 1" "14 / 21" "6004799503160661"]
  by (simp add: emin_def)

lemma thirds_mul_1: "Number_multiply (6004799503160661 / 9007199254740992) 100 = 2345624805922133 / 35184372088832"
  unfolding Number_multiply_def
  using NumberValue_eqI [of "6" "(6004799503160661 / 9007199254740992) * 100" "4691249611844266"]
  by (simp add: emin_def)

lemma thirds_div_2: "Number_divide 7 21 = 6004799503160661 / 18014398509481984"
  unfolding Number_divide_def
  using NumberValue_eqI [of "- 2" "7 / 21" "6004799503160661"]
  by (simp add: emin_def)

lemma thirds_mul_2: "Number_multiply (6004799503160661 / 18014398509481984) 100 = 2345624805922133 / 70368744177664"
  unfolding Number_multiply_def
  using NumberValue_eqI [of "5" "(6004799503160661 / 18014398509481984) * 100" "4691249611844266"]
  by (simp add: emin_def)

lemmas decimal_arith = Number_729_64 Number_174_56 Number_379_60 Number_549_38 decimal_add_1 decimal_add_2 decimal_add_3 decimal_add_4 decimal_add_5 decimal_add_6 decimal_add_7 decimal_add_8 decimal_div_1 decimal_mul_1 decimal_div_2 decimal_mul_2

lemmas cancelling_arith = Number_0_1 Number_0_2 Number_minus_0_3 cancelling_add_1 cancelling_add_2 cancelling_add_3 cancelling_add_4 cancelling_add_5 cancelling_div_1 cancelling_mul_1 cancelling_div_2 cancelling_mul_2 cancelling_div_3 cancelling_mul_3

lemmas thirds_arith = thirds_div_1 thirds_mul_1 thirds_div_2 thirds_mul_2

lemma Number_add_whole:
  "a \<in> \<int> \<Longrightarrow> b \<in> \<int> \<Longrightarrow> \<bar>a + b\<bar> \<le> 2 ^ 53 \<Longrightarrow> Number_add a b = a + b"
  by (rule Number_add_Ints)

lemma decimal_aggregate:
  "aggregateByField sampleToStr decimalSales F_department =
     [\<lparr>name = ''Sales-A'', value' = 799114055951319 / 549755813888,
       percentage = 348733482124535 / 4398046511104\<rparr>,
      \<lparr>name = ''Sales-B'', value' = 3338996911230157 / 8796093022208,
       percentage = 2914277407547677 / 140737488355328\<rparr>]"
  by (simp add: aggregateByField_def aggregateStep_def Let_def Map_get_def decimalSales_def
      sampleSale_def decimal_arith)


lemma sample_aggregate:
  "aggregateByField sampleToStr
     [sampleSale ''Sales-B'' ''Oil'' ''2023-04-02'' 2023 4 7,
      sampleSale ''Sales-A'' ''Soy'' ''2023-03-11'' 2023 3 10,
      sampleSale ''Sales-A'' ''Soy'' ''2023-05-20'' 2023 5 4] F_department
   = [\<lparr>name = ''Sales-A'', value' = 14, percentage = 2345624805922133 / 35184372088832\<rparr>,
      \<lparr>name = ''Sales-B'', value' = 7, percentage = 2345624805922133 / 70368744177664\<rparr>]"
  by (simp add: aggregateByField_def aggregateStep_def Let_def Map_get_def sampleSale_def
      Number_add_whole thirds_arith)

lemma decimal_total: "Number_sum (map amount decimalSales) = 251950340725801 / 137438953472"
  by (simp add: Number_sum_def decimalSales_def sampleSale_def decimal_arith)


lemma isNumber_NumberValue: "\<bar>NumberValue x\<bar> < 2 ^ 1024 \<Longrightarrow> isNumber (NumberValue x)"
  by (simp add: isNumber_def NumberValue_idem)

lemma isNumber_whole:
  assumes "x \<in> \<int>" and "\<bar>x\<bar> \<le> 2 ^ 53"
  shows "isNumber x"
proof -
  from assms(1) obtain k :: int where k: "x = of_int k"
    by (rule Ints_cases)
  with assms(2) have "(of_int \<bar>k\<bar> :: rat) \<le> of_int (2 ^ 53)"
    by simp
  then have "\<bar>k\<bar> \<le> 2 ^ 53"
    by (simp only: of_int_le_iff)
  then have "NumberValue x = x"
    unfolding k by (rule NumberValue_of_int)
  moreover have "\<bar>x\<bar> < 2 ^ 1024"
    using assms(2) by (rule order_le_less_trans) simp
  ultimately show ?thesis
    by (simp add: isNumber_def)
qed

lemma isNumber_decimal:
  "isNumber (NumberValue (18241 / 25))" "isNumber (NumberValue (4364 / 25))"
  "isNumber (NumberValue (1898 / 5))" "isNumber (NumberValue (27469 / 50))"
  by (rule isNumber_NumberValue, simp add: decimal_arith)+

lemma isNumber_cancelling:
  "isNumber (NumberValue (1 / 10))" "isNumber (NumberValue (1 / 5))"
  "isNumber (NumberValue (- (3 / 10)))"
  by (rule isNumber_NumberValue, simp add: cancelling_arith)+

subsection \<open>The sum of the values\<close>

text \<open>
  C5, as the code has it. The amounts are binary64 values and the loop adds them in
  binary64, so that the \<^verbatim>\<open>value\<close> fields sum to the sum of the amounts only up to
  rounding. For every grouping field and every input list whose amounts are finite Numbers,
  with magnitudes small enough for no sum to overflow (the second hypothesis):
  \<^item> the points returned have distinct names, which are the keys of the input records: one
    point per key;
  \<^item> the value of a point is the sum of the amounts of the records of its key, added in
    binary64 in the order of the input, and it is a finite Number;
  \<^item> the sum of the values and the sum of the amounts, both taken exactly, differ by at most
    \<open>((1 + 2^(- 53))^n - 1) * A\<close>, where \<open>n\<close> is the number of records and \<open>A\<close> the sum of
    the magnitudes of the amounts; for up to \<open>2^52\<close> records this is at most
    \<open>n * 2^(- 52) * A\<close>;
  \<^item> when the amounts are whole numbers and \<open>A \<le> 2^53\<close>, the sum of the values is the sum of
    the amounts, and so is the total that a binary64 loop over the amounts accumulates.
\<close>

theorem aggregateByField_preserves_total:
  assumes numbers: "\<forall>d\<in>set data. isNumber (amount d)"
    and range: "(1 + u64) ^ length data * sum_list (map (\<lambda>d. \<bar>amount d\<bar>) data) < 2 ^ 1023"
  shows "distinct (map name (aggregateByField toStr data field))
    \<and> set (map name (aggregateByField toStr data field)) = fieldString toStr field ` set data
    \<and> (\<forall>p\<in>set (aggregateByField toStr data field).
          value' p = Number_sum (map amount
            (filter (\<lambda>d. fieldString toStr field d = name p) data)) \<and>
          isNumber (value' p))
    \<and> \<bar>sum_list (map value' (aggregateByField toStr data field)) - sum_list (map amount data)\<bar>
        \<le> ((1 + u64) ^ length data - 1) * sum_list (map (\<lambda>d. \<bar>amount d\<bar>) data)
    \<and> (length data \<le> 2 ^ 52 \<longrightarrow>
        \<bar>sum_list (map value' (aggregateByField toStr data field)) - sum_list (map amount data)\<bar>
          \<le> of_nat (length data) * 2 powi (- 52) * sum_list (map (\<lambda>d. \<bar>amount d\<bar>) data))
    \<and> ((\<forall>d\<in>set data. amount d \<in> \<int>) \<and> sum_list (map (\<lambda>d. \<bar>amount d\<bar>) data) \<le> 2 ^ 53 \<longrightarrow>
        sum_list (map value' (aggregateByField toStr data field)) = sum_list (map amount data) \<and>
        Number_sum (map amount data) = sum_list (map amount data))"
proof -
  let ?out = "aggregateByField toStr data field"
  let ?m = "fst (foldl (aggregateStep toStr field) ([], 0) data)"
  define A where "A = sum_list (map (\<lambda>d. \<bar>amount d\<bar>) data)"
  define P where "P = (1 + u64) ^ length data"
  have A: "0 \<le> A"
    unfolding A_def by (rule sum_list_nonneg) auto
  note grid = isNumber_amounts_onGrid [OF numbers]
  note bounds = aggregate_bounds [OF grid, of toStr field, folded A_def P_def]
  note groups = aggregateByField_groups [of toStr data field]
  have numbers_out: "isNumber (value' p)" if "p \<in> set ?out" for p
  proof -
    from aggregateByField_point [OF that] obtain e where e: "e \<in> set ?m" "value' p = snd e"
      by blast
    have "\<bar>snd e\<bar> \<le> sum_list (map (\<lambda>e. \<bar>snd e\<bar>) ?m)"
      using e(1) by (rule abs_entry_le)
    also have "\<dots> \<le> P * A"
      using bounds by blast
    also have "\<dots> < 2 ^ 1023"
      using range by (simp add: P_def A_def)
    also have "(2::rat) ^ 1023 \<le> 2 ^ 1024"
      by (intro power_increasing) simp_all
    finally have "\<bar>value' p\<bar> < 2 ^ 1024"
      by (simp add: e(2))
    moreover have "value' p = Number_sum (map amount
        (filter (\<lambda>d. fieldString toStr field d = name p) data))"
      using groups that by blast
    ultimately show ?thesis
      using isNumber_Number_sum by metis
  qed
  have err: "\<bar>sum_list (map value' ?out) - sum_list (map amount data)\<bar> \<le> (P - 1) * A"
    using bounds by (simp add: aggregateByField_values)
  have simple: "\<bar>sum_list (map value' ?out) - sum_list (map amount data)\<bar>
      \<le> of_nat (length data) * 2 powi (- 52) * A" if "length data \<le> 2 ^ 52"
  proof -
    have "P - 1 \<le> of_nat (length data) * 2 powi (- 52)"
      unfolding P_def using that by (rule growth_u64)
    then have "(P - 1) * A \<le> of_nat (length data) * 2 powi (- 52) * A"
      using A by (rule mult_right_mono)
    with err show ?thesis
      by linarith
  qed
  have exact: "sum_list (map value' ?out) = sum_list (map amount data) \<and>
      Number_sum (map amount data) = sum_list (map amount data)"
    if "(\<forall>d\<in>set data. amount d \<in> \<int>) \<and> sum_list (map (\<lambda>d. \<bar>amount d\<bar>) data) \<le> 2 ^ 53"
    using that aggregate_exact [of data toStr field] total_exact [of data]
    by (simp add: aggregateByField_values)
  from groups numbers_out err simple exact show ?thesis
    unfolding A_def P_def by blast
qed

theorem aggregateByField_preserves_total_witness:
  "sum_list (map value' (aggregateByField sampleToStr
     [sampleSale ''Sales-B'' ''Oil'' ''2023-04-02'' 2023 4 7,
      sampleSale ''Sales-A'' ''Soy'' ''2023-03-11'' 2023 3 10,
      sampleSale ''Sales-A'' ''Soy'' ''2023-05-20'' 2023 5 4] F_department)) = 21
   \<and> \<bar>sum_list (map value' (aggregateByField sampleToStr decimalSales F_department))
        - sum_list (map amount decimalSales)\<bar>
       \<le> 4 * 2 powi (- 52) * sum_list (map amount decimalSales)"
proof -
  let ?S = "[sampleSale ''Sales-B'' ''Oil'' ''2023-04-02'' 2023 4 7,
      sampleSale ''Sales-A'' ''Soy'' ''2023-03-11'' 2023 3 10,
      sampleSale ''Sales-A'' ''Soy'' ''2023-05-20'' 2023 5 4]"
  have numbers: "\<forall>d\<in>set ?S. isNumber (amount d)"
    by (simp add: sampleSale_def isNumber_whole)
  have range: "(1 + u64) ^ length ?S * sum_list (map (\<lambda>d. \<bar>amount d\<bar>) ?S) < 2 ^ 1023"
    by (simp add: sampleSale_def u64_def)
  have whole: "(\<forall>d\<in>set ?S. amount d \<in> \<int>) \<and> sum_list (map (\<lambda>d. \<bar>amount d\<bar>) ?S) \<le> 2 ^ 53"
    by (simp add: sampleSale_def)
  have "sum_list (map value' (aggregateByField sampleToStr ?S F_department)) =
      sum_list (map amount ?S)"
    using aggregateByField_preserves_total [OF numbers range, of sampleToStr F_department] whole
    by blast
  then have 1: "sum_list (map value' (aggregateByField sampleToStr ?S F_department)) = 21"
    by (simp add: sampleSale_def)
  have numbers': "\<forall>d\<in>set decimalSales. isNumber (amount d)"
    by (simp add: decimalSales_def sampleSale_def isNumber_decimal)
  have amounts: "map amount decimalSales =
      [6417981312723845 / 8796093022208, 3070891995913257 / 17592186044416,
       3338996911230157 / 8796093022208, 4832397584540631 / 8796093022208]"
    by (simp add: decimalSales_def sampleSale_def decimal_arith)
  have magnitudes: "sum_list (map (\<lambda>d. \<bar>amount d\<bar>) decimalSales) = sum_list (map amount decimalSales)"
    by (simp add: decimalSales_def sampleSale_def decimal_arith)
  have range': "(1 + u64) ^ length decimalSales *
      sum_list (map (\<lambda>d. \<bar>amount d\<bar>) decimalSales) < 2 ^ 1023"
    unfolding magnitudes amounts by (simp add: decimalSales_def u64_def)
  have "length decimalSales \<le> 2 ^ 52"
    by (simp add: decimalSales_def)
  with aggregateByField_preserves_total [OF numbers' range', of sampleToStr F_department]
  have "\<bar>sum_list (map value' (aggregateByField sampleToStr decimalSales F_department))
        - sum_list (map amount decimalSales)\<bar>
      \<le> of_nat (length decimalSales) * 2 powi (- 52) *
          sum_list (map (\<lambda>d. \<bar>amount d\<bar>) decimalSales)"
    by blast
  then have 2: "\<bar>sum_list (map value' (aggregateByField sampleToStr decimalSales F_department))
        - sum_list (map amount decimalSales)\<bar>
      \<le> 4 * 2 powi (- 52) * sum_list (map amount decimalSales)"
    unfolding magnitudes by (simp add: decimalSales_def)
  from 1 2 show ?thesis
    by blast
qed

text \<open>
  The statement without the rounding (the values sum to the sum of the amounts, for every
  input) fails. Of the sales of 729.64, 174.56, 379.60 and 549.38, grouped by department,
  the first, second and fourth add up to the value 1453.58 and the third is the value
  379.6. Taken exactly, the two values sum to \<open>2^(- 44)\<close> less than the four amounts. Added
  in binary64 the two values give 1833.1799999999998, and the four amounts give
  1833.1800000000003.
\<close>

theorem aggregateByField_total_counterexample:
  "map name (aggregateByField sampleToStr decimalSales F_department) = [''Sales-A'', ''Sales-B'']
   \<and> sum_list (map value' (aggregateByField sampleToStr decimalSales F_department))
       \<noteq> sum_list (map amount decimalSales)
   \<and> sum_list (map value' (aggregateByField sampleToStr decimalSales F_department))
       - sum_list (map amount decimalSales) = - (1 / 2 ^ 44)
   \<and> Number_sum (map value' (aggregateByField sampleToStr decimalSales F_department))
       = 4031205451612815 / 2199023255552
   \<and> Number_sum (map amount decimalSales) = 251950340725801 / 137438953472"
  by (simp add: decimal_aggregate decimal_total Number_sum_def decimal_arith)
    (simp add: decimalSales_def sampleSale_def decimal_arith)

subsection \<open>The order of the points\<close>

text \<open>
  C6. For every input list and every grouping field, the output of \<^verbatim>\<open>aggregateByField\<close>
  is sorted non-increasing by \<^verbatim>\<open>value\<close>: each point's value is at least that of every
  later point, the next one in particular.
\<close>

theorem aggregateByField_sorted_descending:
  "sorted_wrt (\<lambda>a b. value' a \<ge> value' b) (aggregateByField toStr data field)
   \<and> (\<forall>i. Suc i < length (aggregateByField toStr data field) \<longrightarrow>
        value' (aggregateByField toStr data field ! i)
          \<ge> value' (aggregateByField toStr data field ! Suc i))"
proof -
  have "sorted (map (\<lambda>p. - value' p) (aggregateByField toStr data field))"
    by (simp add: aggregateByField_def Let_def)
  then have all: "sorted_wrt (\<lambda>a b. value' a \<ge> value' b) (aggregateByField toStr data field)"
    by (simp add: sorted_map)
  then have "value' (aggregateByField toStr data field ! i)
      \<ge> value' (aggregateByField toStr data field ! Suc i)"
    if "Suc i < length (aggregateByField toStr data field)" for i
    using sorted_wrt_nth_less [OF all, of i "Suc i"] that by simp
  with all show ?thesis by blast
qed

theorem aggregateByField_sorted_descending_witness:
  "value' (aggregateByField sampleToStr
     [sampleSale ''Sales-B'' ''Oil'' ''2023-04-02'' 2023 4 7,
      sampleSale ''Sales-A'' ''Soy'' ''2023-03-11'' 2023 3 10,
      sampleSale ''Sales-A'' ''Soy'' ''2023-05-20'' 2023 5 4] F_department ! 0)
   \<ge> value' (aggregateByField sampleToStr
     [sampleSale ''Sales-B'' ''Oil'' ''2023-04-02'' 2023 4 7,
      sampleSale ''Sales-A'' ''Soy'' ''2023-03-11'' 2023 3 10,
      sampleSale ''Sales-A'' ''Soy'' ''2023-05-20'' 2023 5 4] F_department ! Suc 0)
   \<and> map name (aggregateByField sampleToStr
     [sampleSale ''Sales-B'' ''Oil'' ''2023-04-02'' 2023 4 7,
      sampleSale ''Sales-A'' ''Soy'' ''2023-03-11'' 2023 3 10,
      sampleSale ''Sales-A'' ''Soy'' ''2023-05-20'' 2023 5 4] F_department)
     = [''Sales-A'', ''Sales-B'']"
proof -
  let ?out = "aggregateByField sampleToStr
     [sampleSale ''Sales-B'' ''Oil'' ''2023-04-02'' 2023 4 7,
      sampleSale ''Sales-A'' ''Soy'' ''2023-03-11'' 2023 3 10,
      sampleSale ''Sales-A'' ''Soy'' ''2023-05-20'' 2023 5 4] F_department"
  have len: "Suc 0 < length ?out"
    by (simp add: sample_aggregate)
  have "value' (?out ! 0) \<ge> value' (?out ! Suc 0)"
    using aggregateByField_sorted_descending [THEN conjunct2, rule_format, OF len] .
  moreover have "map name ?out = [''Sales-A'', ''Sales-B'']"
    by (simp add: sample_aggregate)
  ultimately show ?thesis by blast
qed

subsection \<open>Percentages\<close>




section \<open>Properties of getTrendData\<close>

subsection \<open>Decimal numerals\<close>

lemma digitValue_digitChar: "d < 10 \<Longrightarrow> digitValue (digitChar d) = Some d"
  by (simp add: digitValue_def digitChar_def)

lemma mathInt_snoc:
  "mathInt R (Z @ [c]) = mathInt R Z * R + (case digitValue c of None \<Rightarrow> 0 | Some v \<Rightarrow> v)"
  by (simp add: mathInt_def)

lemma mathInt_digits: "mathInt 10 (digits n) = n"
proof (induction n rule: digits.induct)
  case (1 n)
  show ?case
  proof (cases "n < 10")
    case True
    then show ?thesis
      by (simp add: digits.simps [of n] mathInt_def digitValue_digitChar)
  next
    case False
    with "1.IH" have "mathInt 10 (digits (n div 10)) = n div 10"
      by simp
    with False show ?thesis
      by (simp add: digits.simps [of n] mathInt_snoc digitValue_digitChar)
  qed
qed

lemma digits_inj: "digits m = digits n \<Longrightarrow> m = n"
  by (metis mathInt_digits)

lemma digits_not_minus: "CHR ''-'' \<notin> set (digits n)"
proof (induction n rule: digits.induct)
  case (1 n)
  have digit: "digitChar d \<noteq> CHR ''-''" if "d < 10" for d
    using digitValue_digitChar [OF that] by (auto simp: digitValue_def)
  show ?case
  proof (cases "n < 10")
    case True
    then show ?thesis
      using digit [of n] by (simp add: digits.simps [of n])
  next
    case False
    with "1.IH" have "CHR ''-'' \<notin> set (digits (n div 10))"
      by simp
    with False show ?thesis
      using digit [of "n mod 10"] by (simp add: digits.simps [of n])
  qed
qed

lemma Number_toString_inj:
  assumes "Number_toString (Num i) = Number_toString (Num j)"
  shows "i = j"
proof -
  have neg: "Number_toString (Num k) = CHR ''-'' # digits (nat (- k))" if "k < 0" for k
    using that by (simp add: Number_toString_def)
  have pos: "Number_toString (Num k) = digits (nat k)" if "\<not> k < 0" for k
    using that by (simp add: Number_toString_def)
  consider "i < 0" "j < 0" | "i < 0" "\<not> j < 0" | "\<not> i < 0" "j < 0" | "\<not> i < 0" "\<not> j < 0"
    by blast
  then show ?thesis
  proof cases
    case 1
    with assms have "digits (nat (- i)) = digits (nat (- j))"
      by (simp add: neg)
    then have "nat (- i) = nat (- j)"
      by (rule digits_inj)
    with 1 show ?thesis by simp
  next
    case 2
    with assms have "CHR ''-'' # digits (nat (- i)) = digits (nat j)"
      by (simp add: neg pos)
    then have "CHR ''-'' \<in> set (digits (nat j))"
      by (metis list.set_intros(1))
    then show ?thesis
      by (simp add: digits_not_minus)
  next
    case 3
    with assms have "digits (nat i) = CHR ''-'' # digits (nat (- j))"
      by (simp add: neg pos)
    then have "CHR ''-'' \<in> set (digits (nat i))"
      by (metis list.set_intros(1))
    then show ?thesis
      by (simp add: digits_not_minus)
  next
    case 4
    with assms have "digits (nat i) = digits (nat j)"
      by (simp add: pos)
    then have "nat i = nat j"
      by (rule digits_inj)
    with 4 show ?thesis by simp
  qed
qed

subsection \<open>Month keys\<close>

lemma monthKey_upto: "map (\<lambda>m. monthKey (Num m)) [1..12] = monthKeys"
  unfolding monthKeys_def by code_simp

lemma initMonthlyMap_keys: "map fst initMonthlyMap = monthKeys"
  unfolding monthKeys_def by code_simp

lemma sorted_keys_init: "sort (Object_keys initMonthlyMap) = monthKeys"
  unfolding monthKeys_def by code_simp

lemma monthKey_in_keys: "m \<in> {1..12} \<Longrightarrow> monthKey (Num m) \<in> set monthKeys"
proof -
  assume "m \<in> {1..12}"
  then have "m \<in> set [1..12]" by simp
  then have "monthKey (Num m) \<in> set (map (\<lambda>m. monthKey (Num m)) [1..12])"
    by (rule imageI [of m "set [1..12]" "\<lambda>m. monthKey (Num m)", simplified set_map [symmetric]])
  then show ?thesis by (simp only: monthKey_upto)
qed

lemma monthKey_inj:
  assumes "m \<in> {1..12}" and "n \<in> {1..12}" and "monthKey (Num m) = monthKey (Num n)"
  shows "m = n"
proof -
  have "distinct (map (\<lambda>m. monthKey (Num m)) [1..12])"
    unfolding monthKey_upto by (simp add: monthKeys_def)
  then have "inj_on (\<lambda>m. monthKey (Num m)) (set [1..12])"
    by (simp only: distinct_map)
  with assms show ?thesis
    by (auto dest: inj_onD)
qed

lemma monthKeys_nth:
  assumes "m \<in> {1..12}"
  shows "monthKeys ! nat (m - 1) = monthKey (Num m)"
proof -
  from assms have "nat (m - 1) < length [1..12]"
    by simp linarith
  then have "map (\<lambda>m. monthKey (Num m)) [1..12] ! nat (m - 1) = monthKey (Num ([1..12] ! nat (m - 1)))"
    by (rule nth_map)
  moreover have "[1..12] ! nat (m - 1) = m"
    using assms by (simp add: nth_upto)
  ultimately show ?thesis
    by (simp only: monthKey_upto)
qed


subsection \<open>Reading the rows\<close>

lemma Map_get_keys: "k \<in> set (map fst m) \<Longrightarrow> \<exists>r. Map_get m k = Some r"
  by (cases "Map_get m k") (auto simp: Map_get_def map_of_eq_None_iff)

lemma Map_get_foldl_set:
  "Map_get (foldl (\<lambda>point y. Map_set y (f y) point) p ys) k =
     (if k \<in> set ys then Some (f k) else Map_get p k)"
  by (induction ys arbitrary: p) (auto simp: Map_get_Map_set)

subsection \<open>One record of the trend loop\<close>

lemma cell_Map_set:
  "cell (Map_set k row m) k' y = (if k' = k then orZero (Map_get row y) else cell m k' y)"
  by (simp add: cell_def Map_get_Map_set)

lemma cellSum_Nil: "cellSum [] k y = 0"
  by (simp add: cellSum_def Number_sum_Nil)

lemma trendStep_ok:
  assumes "monthKey (month d) \<in> set (map fst mm)"
  shows "\<exists>mm'. trendStep (yf, mm) d = Inr (Set_add (year d) yf, mm')
      \<and> map fst mm' = map fst mm
      \<and> (\<forall>k y. cell mm' k y =
            (if monthKey (month d) = k \<and> Number_toString (year d) = y
             then Number_add (cell mm k y) (amount d) else cell mm k y))"
proof -
  let ?mStr = "monthKey (month d)" and ?yStr = "Number_toString (year d)"
  from Map_get_keys [OF assms] obtain row where row: "Map_get mm ?mStr = Some row"
    by blast
  define row1 where "row1 = (if orZero (Map_get row ?yStr) = 0 then Map_set ?yStr 0 row else row)"
  define row2 where
    "row2 = Map_set ?yStr (Number_add (orZero (Map_get row1 ?yStr)) (amount d)) row1"
  have step: "trendStep (yf, mm) d = Inr (Set_add (year d) yf, Map_set ?mStr row2 mm)"
    by (simp add: trendStep_def Let_def row row1_def row2_def)
  have r1: "orZero (Map_get row1 y) = orZero (Map_get row y)" for y
    by (simp add: row1_def Map_get_Map_set)
  have r2: "orZero (Map_get row2 y) =
      (if ?yStr = y then Number_add (orZero (Map_get row y)) (amount d)
       else orZero (Map_get row y))" for y
    by (auto simp: row2_def Map_get_Map_set r1)
  have old: "cell mm ?mStr y = orZero (Map_get row y)" for y
    by (simp add: cell_def row)
  have "cell (Map_set ?mStr row2 mm) k y =
      (if ?mStr = k \<and> ?yStr = y then Number_add (cell mm k y) (amount d) else cell mm k y)"
    for k y
    by (auto simp: cell_Map_set r2 old)
  moreover have "map fst (Map_set ?mStr row2 mm) = map fst mm"
    using assms by (rule keys_Map_set)
  ultimately show ?thesis
    using step by blast
qed

subsection \<open>The whole trend loop\<close>

lemma forEachTrend_ok:
  assumes "\<forall>d\<in>set data. monthKey (month d) \<in> set (map fst mm)"
  shows "\<exists>mm'. forEachTrend (yf, mm) data =
        Inr (foldl (\<lambda>ys d. Set_add (year d) ys) yf data, mm')
      \<and> map fst mm' = map fst mm
      \<and> (\<forall>k y. cell mm' k y =
            foldl Number_add (cell mm k y)
              (map amount (filter (\<lambda>d. monthKey (month d) = k \<and>
                                       Number_toString (year d) = y) data)))"
  using assms
proof (induction data arbitrary: yf mm)
  case Nil
  show ?case by simp
next
  case (Cons d data)
  from Cons.prems have "monthKey (month d) \<in> set (map fst mm)"
    by simp
  from trendStep_ok [OF this, of yf] obtain mm1 where
    step: "trendStep (yf, mm) d = Inr (Set_add (year d) yf, mm1)" and
    keys1: "map fst mm1 = map fst mm" and
    cell1: "\<forall>k y. cell mm1 k y =
        (if monthKey (month d) = k \<and> Number_toString (year d) = y
         then Number_add (cell mm k y) (amount d) else cell mm k y)"
    by blast
  from Cons.prems keys1 have "\<forall>d\<in>set data. monthKey (month d) \<in> set (map fst mm1)"
    by simp
  from Cons.IH [OF this, of "Set_add (year d) yf"] obtain mm2 where
    rest: "forEachTrend (Set_add (year d) yf, mm1) data =
        Inr (foldl (\<lambda>ys d. Set_add (year d) ys) (Set_add (year d) yf) data, mm2)" and
    keys2: "map fst mm2 = map fst mm1" and
    cell2: "\<forall>k y. cell mm2 k y =
        foldl Number_add (cell mm1 k y)
          (map amount (filter (\<lambda>d. monthKey (month d) = k \<and>
                                   Number_toString (year d) = y) data))"
    by blast
  have "forEachTrend (yf, mm) (d # data) =
      Inr (foldl (\<lambda>ys d. Set_add (year d) ys) yf (d # data), mm2)"
    by (simp add: step rest)
  moreover have "map fst mm2 = map fst mm"
    by (simp add: keys1 keys2)
  moreover have "cell mm2 k y =
      foldl Number_add (cell mm k y)
        (map amount (filter (\<lambda>d. monthKey (month d) = k \<and>
                                 Number_toString (year d) = y) (d # data)))" for k y
    by (simp add: cell1 cell2)
  ultimately show ?case by blast
qed

subsection \<open>The years\<close>

lemma set_foldl_Set_add:
  "set (foldl (\<lambda>ys d. Set_add (year d) ys) yf data) = set yf \<union> year ` set data"
  by (induction data arbitrary: yf) (auto simp: Set_add_def)

lemma distinct_foldl_Set_add:
  "distinct yf \<Longrightarrow> distinct (foldl (\<lambda>ys d. Set_add (year d) ys) yf data)"
  by (induction data arbitrary: yf) (auto simp: Set_add_def)

lemma sortYears_integers:
  assumes "distinct ys" and "NaN \<notin> set ys"
  shows "sortYears ys = Inr (map Num (sorted_list_of_set (intOf ` set ys)))"
proof -
  have Num_intOf: "Num (intOf y) = y" if "y \<in> set ys" for y
  proof (cases y)
    case NaN
    with that assms(2) show ?thesis by simp
  next
    case (Num i)
    then show ?thesis by simp
  qed
  have "inj_on intOf (set ys)"
    by (rule inj_onI) (metis Num_intOf)
  with assms(1) have "distinct (map intOf (sort_key intOf ys))"
    by (simp add: distinct_map)
  moreover have "sorted (map intOf (sort_key intOf ys))"
    by (rule sorted_sort_key)
  ultimately have "sorted_list_of_set (set (map intOf (sort_key intOf ys)))
      = map intOf (sort_key intOf ys)"
    using sorted_list_of_set.idem_if_sorted_distinct [of "map intOf (sort_key intOf ys)"]
    by (simp del: set_map)
  then have "map Num (sorted_list_of_set (intOf ` set ys)) = map Num (map intOf (sort_key intOf ys))"
    by simp
  also have "\<dots> = sort_key intOf ys"
  proof -
    have "map (\<lambda>y. Num (intOf y)) (sort_key intOf ys) = sort_key intOf ys"
      by (rule map_idI) (simp add: Num_intOf)
    then show ?thesis
      by (simp add: comp_def)
  qed
  finally show ?thesis
    using assms(2) by (simp add: sortYears_def)
qed


subsection \<open>The trend points\<close>

lemma Map_get_constant_rows:
  "Map_get (map (\<lambda>k. (k, v)) ks) k' = (if k' \<in> set ks then Some v else None)"
  by (induction ks) (auto simp: Map_get_def)

lemma initMonthlyMap_rows: "initMonthlyMap = map (\<lambda>k. (k, [])) monthKeys"
  unfolding monthKeys_def by code_simp

lemma cell_init: "cell initMonthlyMap k y = 0"
  by (simp add: cell_def initMonthlyMap_rows Map_get_constant_rows Map_get_Nil)

lemma Object_keys_cong: "map fst obj = map fst obj' \<Longrightarrow> Object_keys obj = Object_keys obj'"
  by (simp add: Object_keys_def)

lemma byYear_trendPoint:
  "Map_get (byYear (trendPoint mm sortedYears k)) y =
     (if y \<in> set sortedYears then Some (cell mm k y) else None)"
  by (simp add: trendPoint_def Let_def Map_get_foldl_set cell_def Map_get_Nil)

lemma month_trendPoint: "TrendDataPoint.month (trendPoint mm sortedYears k) = monthLabel k"
  by (simp add: trendPoint_def Let_def)

lemma cellSum_integers:
  assumes months: "\<forall>d\<in>set data. \<exists>m\<in>{1..12}. month d = Num m"
    and years: "\<forall>d\<in>set data. \<exists>y. year d = Num y"
    and m: "m \<in> {1..12}"
  shows "cellSum data (monthKey (Num m)) (Number_toString (Num y)) =
    Number_sum (map amount (filter (\<lambda>d. month d = Num m \<and> year d = Num y) data))"
proof -
  have "(monthKey (month d) = monthKey (Num m) \<and>
         Number_toString (year d) = Number_toString (Num y)) \<longleftrightarrow>
        (month d = Num m \<and> year d = Num y)" if "d \<in> set data" for d
  proof -
    from months that obtain m' where m': "m' \<in> {1..12}" "month d = Num m'"
      by blast
    from years that obtain y' where y': "year d = Num y'"
      by blast
    have "monthKey (Num m') = monthKey (Num m) \<longleftrightarrow> m' = m"
      using monthKey_inj [OF m'(1) m] by blast
    moreover have "Number_toString (Num y') = Number_toString (Num y) \<longleftrightarrow> y' = y"
      using Number_toString_inj [of y' y] by blast
    ultimately show ?thesis
      by (simp add: m'(2) y')
  qed
  then have "filter (\<lambda>d. monthKey (month d) = monthKey (Num m) \<and>
        Number_toString (year d) = Number_toString (Num y)) data
      = filter (\<lambda>d. month d = Num m \<and> year d = Num y) data"
    by (intro filter_cong) simp_all
  then show ?thesis
    by (simp add: cellSum_def)
qed

lemma sum_abs_filter_le:
  "sum_list (map (\<lambda>d. \<bar>amount d\<bar>) (filter P data)) \<le> sum_list (map (\<lambda>d. \<bar>amount d\<bar>) data)"
proof (induction data)
  case Nil
  show ?case by simp
next
  case (Cons d data)
  have "0 \<le> \<bar>amount d\<bar>"
    by simp
  with Cons show ?case
    by (cases "P d") (simp_all add: add_increasing)
qed

lemma getTrendData_result:
  assumes months: "\<forall>d\<in>set data. \<exists>m\<in>{1..12}. month d = Num m"
    and years: "\<forall>d\<in>set data. \<exists>y. year d = Num y"
  shows "\<exists>mm. getTrendData data =
        Inr (map (trendPoint mm (map (\<lambda>y. Number_toString (Num y))
                    (sorted_list_of_set {y. \<exists>d\<in>set data. year d = Num y}))) monthKeys,
             map (\<lambda>y. Number_toString (Num y))
               (sorted_list_of_set {y. \<exists>d\<in>set data. year d = Num y}))
      \<and> (\<forall>k y. cell mm k y = cellSum data k y)"
proof -
  let ?yf = "foldl (\<lambda>ys d. Set_add (year d) ys) [] data"
  let ?Y = "{y. \<exists>d\<in>set data. year d = Num y}"
  have "\<forall>d\<in>set data. monthKey (month d) \<in> set (map fst initMonthlyMap)"
    using months monthKey_in_keys by (fastforce simp: initMonthlyMap_keys)
  from forEachTrend_ok [OF this, of "[]"] obtain mm where
    run: "forEachTrend ([], initMonthlyMap) data = Inr (?yf, mm)" and
    keys: "map fst mm = map fst initMonthlyMap" and
    cells: "\<forall>k y. cell mm k y =
        foldl Number_add (cell initMonthlyMap k y)
          (map amount (filter (\<lambda>d. monthKey (month d) = k \<and>
                                   Number_toString (year d) = y) data))"
    by blast
  have set_yf: "set ?yf = year ` set data"
    by (simp add: set_foldl_Set_add)
  have "distinct ?yf"
    by (rule distinct_foldl_Set_add) simp
  moreover have "NaN \<notin> set ?yf"
    using years by (auto simp: set_yf)
  ultimately have sorted_years: "sortYears ?yf = Inr (map Num (sorted_list_of_set (intOf ` set ?yf)))"
    by (rule sortYears_integers)
  have "intOf ` set ?yf = ?Y"
  proof (intro set_eqI iffI)
    fix y
    assume "y \<in> intOf ` set ?yf"
    then obtain d where d: "d \<in> set data" "y = intOf (year d)"
      by (auto simp: set_yf)
    with years obtain y' where "year d = Num y'"
      by blast
    with d show "y \<in> ?Y" by auto
  next
    fix y
    assume "y \<in> ?Y"
    then obtain d where d: "d \<in> set data" "year d = Num y"
      by blast
    from d(1) have "year d \<in> set ?yf"
      unfolding set_yf by (rule imageI)
    moreover from d(2) have "y = intOf (year d)"
      by simp
    ultimately show "y \<in> intOf ` set ?yf"
      by (rule image_eqI [rotated])
  qed
  with sorted_years have sorted_years': "sortYears ?yf = Inr (map Num (sorted_list_of_set ?Y))"
    by simp
  have "sort (Object_keys mm) = monthKeys"
    using Object_keys_cong [OF keys] by (simp add: sorted_keys_init)
  then have "getTrendData data =
      Inr (map (trendPoint mm (map (\<lambda>y. Number_toString (Num y)) (sorted_list_of_set ?Y))) monthKeys,
           map (\<lambda>y. Number_toString (Num y)) (sorted_list_of_set ?Y))"
    by (simp add: getTrendData_def run sorted_years' Let_def comp_def)
  moreover have "\<forall>k y. cell mm k y = cellSum data k y"
    using cells by (simp add: cell_init cellSum_def Number_sum_def)
  ultimately show ?thesis by blast
qed

text \<open>
  C7. For every input list whose months lie in \<open>1..12\<close> (and whose years are integers),
  \<^verbatim>\<open>getTrendData\<close> returns, without throwing, exactly 12 trend points, labelled
  \<^verbatim>\<open>01\<close> to \<^verbatim>\<open>12\<close> in ascending order; the returned years are the distinct years of the
  input in ascending order, however many, as decimal strings; and the point of month \<open>m\<close>
  has, under the key of every returned year \<open>y\<close>, the sum of the amounts of the records
  of month \<open>m\<close> and year \<open>y\<close>, added up as the code adds them (in binary64, in the
  order of the input; 0 when there is none), and no other year key. So every point has a
  numeric entry for every returned year. When the amounts are whole numbers whose
  magnitudes sum to at most \<open>2^53\<close>, no addition is rounded and the entry is the exact sum.
\<close>

theorem getTrendData_twelve_months:
  assumes months: "\<forall>d\<in>set data. \<exists>m\<in>{1..12}. month d = Num m"
    and years: "\<forall>d\<in>set data. \<exists>y. year d = Num y"
  shows "\<exists>chartData years.
      getTrendData data = Inr (chartData, years)
    \<and> length chartData = 12
    \<and> map TrendDataPoint.month chartData =
        map monthLabel [''01'', ''02'', ''03'', ''04'', ''05'', ''06'',
                        ''07'', ''08'', ''09'', ''10'', ''11'', ''12'']
    \<and> years = map (\<lambda>y. Number_toString (Num y))
                 (sorted_list_of_set {y. \<exists>d\<in>set data. year d = Num y})
    \<and> (\<forall>m\<in>{1..12}. \<forall>y.
          Map_get (byYear (chartData ! nat (m - 1))) (Number_toString (Num y)) =
            (if \<exists>d\<in>set data. year d = Num y
             then Some (Number_sum (map amount
                    (filter (\<lambda>d. month d = Num m \<and> year d = Num y) data)))
             else None))
    \<and> (\<forall>p\<in>set chartData. \<forall>k\<in>set years. \<exists>v. Map_get (byYear p) k = Some v)
    \<and> ((\<forall>d\<in>set data. amount d \<in> \<int>) \<and>
        sum_list (map (\<lambda>d. \<bar>amount d\<bar>) data) \<le> 2 ^ 53 \<longrightarrow>
        (\<forall>m\<in>{1..12}. \<forall>y.
          Map_get (byYear (chartData ! nat (m - 1))) (Number_toString (Num y)) =
            (if \<exists>d\<in>set data. year d = Num y
             then Some (sum_list (map amount
                    (filter (\<lambda>d. month d = Num m \<and> year d = Num y) data)))
             else None)))"
proof -
  let ?Y = "{y. \<exists>d\<in>set data. year d = Num y}"
  let ?years = "map (\<lambda>y. Number_toString (Num y)) (sorted_list_of_set ?Y)"
  from getTrendData_result [OF months years] obtain mm where
    result: "getTrendData data = Inr (map (trendPoint mm ?years) monthKeys, ?years)" and
    cells: "\<forall>k y. cell mm k y = cellSum data k y"
    by blast
  let ?chart = "map (trendPoint mm ?years) monthKeys"
  have "?Y \<subseteq> intOf ` year ` set data"
    by force
  then have finite_Y: "finite ?Y"
    by (rule finite_subset) simp
  have in_years: "Number_toString (Num y) \<in> set ?years \<longleftrightarrow> (\<exists>d\<in>set data. year d = Num y)" for y
  proof
    assume "Number_toString (Num y) \<in> set ?years"
    then obtain y' where "y' \<in> ?Y" "Number_toString (Num y) = Number_toString (Num y')"
      using finite_Y by auto
    then show "\<exists>d\<in>set data. year d = Num y"
      using Number_toString_inj [of y y'] by simp
  next
    assume "\<exists>d\<in>set data. year d = Num y"
    then have "y \<in> ?Y" by simp
    then show "Number_toString (Num y) \<in> set ?years"
      using finite_Y by simp
  qed
  have len: "length ?chart = 12"
    by (simp add: monthKeys_def)
  have labels: "map TrendDataPoint.month ?chart =
      map monthLabel [''01'', ''02'', ''03'', ''04'', ''05'', ''06'',
                      ''07'', ''08'', ''09'', ''10'', ''11'', ''12'']"
    by (simp add: month_trendPoint monthKeys_def)
  have entries: "Map_get (byYear (?chart ! nat (m - 1))) (Number_toString (Num y)) =
      (if \<exists>d\<in>set data. year d = Num y
       then Some (Number_sum (map amount
              (filter (\<lambda>d. month d = Num m \<and> year d = Num y) data)))
       else None)" if m: "m \<in> {1..12}" for m y
  proof -
    from m have "nat (m - 1) < length monthKeys"
      by (simp add: monthKeys_def) linarith
    then have "?chart ! nat (m - 1) = trendPoint mm ?years (monthKey (Num m))"
      by (simp add: monthKeys_nth [OF m])
    then show ?thesis
      by (simp only: byYear_trendPoint in_years cells [rule_format]
          cellSum_integers [OF months years m])
  qed
  have defined: "\<exists>v. Map_get (byYear p) k = Some v" if "p \<in> set ?chart" "k \<in> set ?years" for p k
  proof -
    from that(1) obtain key where "p = trendPoint mm ?years key"
      by auto
    with that(2) show ?thesis
      by (simp only: byYear_trendPoint if_True) blast
  qed
  have exact: "Map_get (byYear (?chart ! nat (m - 1))) (Number_toString (Num y)) =
      (if \<exists>d\<in>set data. year d = Num y
       then Some (sum_list (map amount
              (filter (\<lambda>d. month d = Num m \<and> year d = Num y) data)))
       else None)"
    if whole: "(\<forall>d\<in>set data. amount d \<in> \<int>) \<and>
        sum_list (map (\<lambda>d. \<bar>amount d\<bar>) data) \<le> 2 ^ 53"
      and m: "m \<in> {1..12}" for m y
  proof -
    let ?cell = "filter (\<lambda>d. month d = Num m \<and> year d = Num y) data"
    have "sum_list (map (\<lambda>d. \<bar>amount d\<bar>) ?cell) \<le> sum_list (map (\<lambda>d. \<bar>amount d\<bar>) data)"
      by (rule sum_abs_filter_le)
    with whole have "sum_list (map (\<lambda>d. \<bar>amount d\<bar>) ?cell) \<le> 2 ^ 53"
      by linarith
    moreover from whole have "\<forall>d\<in>set ?cell. amount d \<in> \<int>"
      by simp
    ultimately have "Number_sum (map amount ?cell) = sum_list (map amount ?cell)"
      by (intro total_exact)
    with entries [OF m, of y] show ?thesis
      by simp
  qed
  from result len labels entries defined exact show ?thesis
    by blast
qed


lemma Number_toString_examples:
  "Number_toString (Num 2022) = ''2022''" "Number_toString (Num 2023) = ''2023''"
  "Number_toString NaN = ''NaN''" "Number_toString (Num (- 7)) = ''-7''"
  by code_simp+

theorem getTrendData_twelve_months_witness:
  "\<exists>chartData.
      getTrendData
        [sampleSale ''Sales-A'' ''Soy'' ''2023-03-11'' 2023 3 10,
         sampleSale ''Sales-B'' ''Oil'' ''2022-03-02'' 2022 3 4,
         sampleSale ''Sales-A'' ''Soy'' ''2023-03-20'' 2023 3 5]
        = Inr (chartData, [''2022'', ''2023''])
    \<and> length chartData = 12
    \<and> Map_get (byYear (chartData ! 2)) ''2022'' = Some 4
    \<and> Map_get (byYear (chartData ! 2)) ''2023'' = Some 15
    \<and> Map_get (byYear (chartData ! 0)) ''2022'' = Some 0
    \<and> Map_get (byYear (chartData ! 11)) ''2023'' = Some 0"
proof -
  let ?data = "[sampleSale ''Sales-A'' ''Soy'' ''2023-03-11'' 2023 3 10,
         sampleSale ''Sales-B'' ''Oil'' ''2022-03-02'' 2022 3 4,
         sampleSale ''Sales-A'' ''Soy'' ''2023-03-20'' 2023 3 5]"
  have months: "\<forall>d\<in>set ?data. \<exists>m\<in>{1..12}. month d = Num m"
    by (simp add: sampleSale_def)
  have years: "\<forall>d\<in>set ?data. \<exists>y. year d = Num y"
    by (simp add: sampleSale_def)
  have "{y. \<exists>d\<in>set ?data. year d = Num y} = {2022, 2023}"
    by (auto simp: sampleSale_def)
  then have sorted_years: "map (\<lambda>y. Number_toString (Num y))
      (sorted_list_of_set {y. \<exists>d\<in>set ?data. year d = Num y}) = [''2022'', ''2023'']"
    by (simp add: Number_toString_examples)
  from getTrendData_twelve_months [OF months years] obtain chartData years where
    result: "getTrendData ?data = Inr (chartData, years)" and
    len: "length chartData = 12" and
    ys: "years = map (\<lambda>y. Number_toString (Num y))
      (sorted_list_of_set {y. \<exists>d\<in>set ?data. year d = Num y})" and
    entries: "\<forall>m\<in>{1..12}. \<forall>y.
      Map_get (byYear (chartData ! nat (m - 1))) (Number_toString (Num y)) =
        (if \<exists>d\<in>set ?data. year d = Num y
         then Some (Number_sum (map amount
                (filter (\<lambda>d. month d = Num m \<and> year d = Num y) ?data)))
         else None)"
    by blast
  have "Map_get (byYear (chartData ! 2)) ''2022'' = Some 4"
    using entries [rule_format, of 3 2022]
    by (simp add: Number_toString_examples sampleSale_def Number_sum_def Number_add_whole)
  moreover have "Map_get (byYear (chartData ! 2)) ''2023'' = Some 15"
    using entries [rule_format, of 3 2023]
    by (simp add: Number_toString_examples sampleSale_def Number_sum_def Number_add_whole)
  moreover have "Map_get (byYear (chartData ! 0)) ''2022'' = Some 0"
    using entries [rule_format, of 1 2022]
    by (simp add: Number_toString_examples sampleSale_def Number_sum_def Number_add_whole)
  moreover have "Map_get (byYear (chartData ! 11)) ''2023'' = Some 0"
    using entries [rule_format, of 12 2023]
    by (simp add: Number_toString_examples sampleSale_def Number_sum_def Number_add_whole)
  ultimately show ?thesis
    using result len ys sorted_years by auto
qed

subsection \<open>A month outside the table\<close>

lemma mathInt_leading_zeros: "mathInt 10 (replicate k (CHR ''0'') @ s) = mathInt 10 s"
proof (induction k)
  case 0
  show ?case by simp
next
  case (Suc k)
  have "digitValue (CHR ''0'') = Some 0"
    by (simp add: digitValue_def)
  then have "mathInt 10 (CHR ''0'' # t) = mathInt 10 t" for t
    by (simp add: mathInt_def)
  with Suc show ?case by simp
qed

lemma mathInt_monthKey: "0 \<le> m \<Longrightarrow> int (mathInt 10 (monthKey (Num m))) = m"
  by (simp add: monthKey_def padStart_def Number_toString_def mathInt_leading_zeros
      mathInt_digits)

lemma mathInt_monthKeys: "k \<in> set monthKeys \<Longrightarrow> int (mathInt 10 k) \<in> {1..12}"
  unfolding monthKeys_def by (auto simp: mathInt_def digitValue_def)

lemma monthKey_negative: "m < 0 \<Longrightarrow> monthKey (Num m) \<notin> set monthKeys"
proof -
  assume "m < 0"
  then have "monthKey (Num m) = replicate (2 - Suc (length (digits (nat (- m))))) (CHR ''0'')
      @ CHR ''-'' # digits (nat (- m))"
    by (simp add: monthKey_def padStart_def Number_toString_def)
  moreover have "digits n \<noteq> []" for n
    by (subst digits.simps) simp
  then have "2 - Suc (length (digits (nat (- m)))) = 0"
    by (cases "digits (nat (- m))") simp_all
  ultimately have "monthKey (Num m) = CHR ''-'' # digits (nat (- m))"
    by simp
  then show ?thesis
    by (auto simp: monthKeys_def)
qed

lemma monthKey_in_table:
  assumes "monthKey n \<in> set monthKeys"
  shows "n \<in> Num ` {1..12}"
proof (cases n)
  case NaN
  with assms show ?thesis
    by (simp add: monthKey_def padStart_def Number_toString_def monthKeys_def)
next
  case (Num m)
  show ?thesis
  proof (cases "m < 0")
    case True
    with assms Num monthKey_negative [of m] show ?thesis by simp
  next
    case False
    with mathInt_monthKey [of m] mathInt_monthKeys [OF assms] Num show ?thesis
      by simp
  qed
qed

lemma forEachTrend_TypeError:
  assumes "map fst mm = monthKeys" and "\<exists>d\<in>set data. month d \<notin> Num ` {1..12}"
  shows "forEachTrend (yf, mm) data = Inl TypeError"
  using assms
proof (induction data arbitrary: yf mm)
  case Nil
  then show ?case by simp
next
  case (Cons d data)
  show ?case
  proof (cases "monthKey (month d) \<in> set (map fst mm)")
    case True
    from trendStep_ok [OF True, of yf] obtain mm1 where
      step: "trendStep (yf, mm) d = Inr (Set_add (year d) yf, mm1)" and
      keys1: "map fst mm1 = map fst mm"
      by blast
    from True Cons.prems(1) have "month d \<in> Num ` {1..12}"
      by (intro monthKey_in_table) simp
    with Cons.prems(2) have "\<exists>d\<in>set data. month d \<notin> Num ` {1..12}"
      by auto
    with Cons.IH [of mm1 "Set_add (year d) yf"] keys1 Cons.prems(1) step show ?thesis
      by simp
  next
    case False
    then have "Map_get mm (monthKey (month d)) = None"
      by (simp add: Map_get_def map_of_eq_None_iff)
    then show ?thesis
      by (simp add: trendStep_def Let_def)
  qed
qed

text \<open>
  The hypothesis on the months is needed: when the month of some record is not one of
  \<open>1..12\<close> (a \<^verbatim>\<open>NaN\<close> month, from a date that did not parse, in particular),
  \<^verbatim>\<open>getTrendData\<close> returns nothing and throws a \<^verbatim>\<open>TypeError\<close>.
\<close>

theorem getTrendData_TypeError:
  assumes "\<exists>d\<in>set data. month d \<notin> Num ` {1..12}"
  shows "getTrendData data = Inl TypeError"
  using forEachTrend_TypeError [OF initMonthlyMap_keys assms, of "[]"]
  by (simp add: getTrendData_def)

theorem getTrendData_TypeError_witness:
  "getTrendData
     [sampleSale ''Sales-A'' ''Soy'' ''2023-03-11'' 2023 3 10,
      (sampleSale ''Sales-B'' ''Oil'' ''soon'' 0 0 7)\<lparr>year := NaN, month := NaN\<rparr>]
   = Inl TypeError"
proof -
  have "\<exists>d\<in>set [sampleSale ''Sales-A'' ''Soy'' ''2023-03-11'' 2023 3 10,
      (sampleSale ''Sales-B'' ''Oil'' ''soon'' 0 0 7)\<lparr>year := NaN, month := NaN\<rparr>].
      month d \<notin> Num ` {1..12}"
    by (simp add: sampleSale_def image_iff)
  then show ?thesis
    by (rule getTrendData_TypeError)
qed

section \<open>Properties of processData\<close>

subsection \<open>Days and years\<close>

lemma floor_bounds:
  fixes a n :: int
  assumes "0 < n"
  shows "n * (a div n) \<le> a" and "a < n * (a div n) + n"
proof -
  have "a = n * (a div n) + a mod n"
    by simp
  moreover have "0 \<le> a mod n" "a mod n < n"
    using assms by simp_all
  ultimately show "n * (a div n) \<le> a" and "a < n * (a div n) + n"
    by linarith+
qed

lemma div_step:
  fixes b n :: int
  assumes "0 < n"
  shows "b div n = (b - 1) div n + (if b mod n = 0 then 1 else 0)"
proof -
  have split: "b = n * (b div n) + b mod n"
    by simp
  have range: "0 \<le> b mod n" "b mod n < n"
    using assms by simp_all
  show ?thesis
  proof (cases "b mod n = 0")
    case True
    with split have "b - 1 = n * (b div n - 1) + (n - 1)"
      by (simp add: algebra_simps)
    then have "(b - 1) div n = b div n - 1"
      using assms int_div_pos_eq [of "b - 1" n "b div n - 1" "n - 1"] by simp
    with True show ?thesis by simp
  next
    case False
    from split have "b - 1 = n * (b div n) + (b mod n - 1)"
      by (simp add: algebra_simps)
    then have "(b - 1) div n = b div n"
      using range False int_div_pos_eq [of "b - 1" n "b div n" "b mod n - 1"] by simp
    with False show ?thesis by simp
  qed
qed

lemma DayFromYear_Suc: "DayFromYear (y + 1) = DayFromYear y + DaysInYear y"
proof -
  have m4: "(y - 1968) mod 4 = y mod 4"
    using mod_mult_self2 [of y 4 "- 492"] by simp
  have m100: "(y - 1900) mod 100 = y mod 100"
    using mod_mult_self2 [of y 100 "- 19"] by simp
  have m400: "(y - 1600) mod 400 = y mod 400"
    using mod_mult_self2 [of y 400 "- 4"] by simp
  have d100: "y mod 4 = 0" if "y mod 100 = 0"
    using mod_mod_cancel [of 4 100 y] that by simp
  have d400: "y mod 100 = 0" if "y mod 400 = 0"
    using mod_mod_cancel [of 100 400 y] that by simp
  have s4: "(y - 1968) div 4 = (y - 1969) div 4 + (if y mod 4 = 0 then 1 else 0)"
    using div_step [of 4 "y - 1968"] by (simp add: m4)
  have s100: "(y - 1900) div 100 = (y - 1901) div 100 + (if y mod 100 = 0 then 1 else 0)"
    using div_step [of 100 "y - 1900"] by (simp add: m100)
  have s400: "(y - 1600) div 400 = (y - 1601) div 400 + (if y mod 400 = 0 then 1 else 0)"
    using div_step [of 400 "y - 1600"] by (simp add: m400)
  show ?thesis
    using d100 d400 by (auto simp: DayFromYear_def DaysInYear_def s4 s100 s400)
qed

lemma DaysInYear_bounds: "365 \<le> DaysInYear y \<and> DaysInYear y \<le> 366"
  by (simp add: DaysInYear_def)

lemma DayFromYear_strict_mono:
  assumes "y < y'"
  shows "DayFromYear y < DayFromYear y'"
proof -
  have step: "DayFromYear z < DayFromYear (z + 1)" for z
    using DaysInYear_bounds [of z] by (simp add: DayFromYear_Suc)
  have "DayFromYear y < DayFromYear (y + 1 + int n)" for n
  proof (induction n)
    case 0
    show ?case using step [of y] by simp
  next
    case (Suc n)
    have "y + 1 + int (Suc n) = y + 1 + int n + 1"
      by simp
    with step [of "y + 1 + int n"]
    have "DayFromYear (y + 1 + int n) < DayFromYear (y + 1 + int (Suc n))"
      by (simp only:)
    with Suc show ?case by linarith
  qed
  from this [of "nat (y' - y - 1)"] assms show ?thesis
    by simp
qed

lemma DayFromYear_mono: "y \<le> y' \<Longrightarrow> DayFromYear y \<le> DayFromYear y'"
  using DayFromYear_strict_mono [of y y'] by (cases "y = y'") simp_all

lemma leap_terms_nonneg:
  fixes q :: int
  assumes "0 \<le> q"
  shows "0 \<le> (q + 2) div 4 - (q + 70) div 100 + (q + 370) div 400"
proof -
  note f4 = floor_bounds [of 4 "q + 2"]
  note f100 = floor_bounds [of 100 "q + 70"]
  note f400 = floor_bounds [of 400 "q + 370"]
  show ?thesis
  proof (cases "q < 30")
    case True
    with assms have "(q + 70) div 100 = 0"
      by simp
    moreover from assms have "0 \<le> (q + 2) div 4" "0 \<le> (q + 370) div 400"
      by simp_all
    ultimately show ?thesis by linarith
  next
    case False
    with f4 f100 f400 show ?thesis by linarith
  qed
qed

lemma leap_terms_neg:
  fixes q :: int
  assumes "q < 0"
  shows "q + 1 \<le> (q + 2) div 4 - (q + 70) div 100 + (q + 370) div 400"
proof -
  note f4 = floor_bounds [of 4 "q + 2"]
  note f100 = floor_bounds [of 100 "q + 70"]
  note f400 = floor_bounds [of 400 "q + 370"]
  consider "q = - 1" | "q = - 2" | "q \<le> - 3"
    using assms by linarith
  then show ?thesis
  proof cases
    case 1
    then show ?thesis by simp
  next
    case 2
    then show ?thesis by simp
  next
    case 3
    with f4 f100 f400 show ?thesis by linarith
  qed
qed

lemma DayFromYear_offset:
  "DayFromYear (1970 + q + 1) =
     365 * q + 365 + ((q + 2) div 4 - (q + 70) div 100 + (q + 370) div 400)"
proof -
  have "1970 + q + 1 - 1970 = q + 1" "1970 + q + 1 - 1969 = q + 2"
    "1970 + q + 1 - 1901 = q + 70" "1970 + q + 1 - 1601 = q + 370"
    by simp_all
  then show ?thesis
    unfolding DayFromYear_def by (simp only:) simp
qed

lemma year_estimate:
  "d < DayFromYear (1970 + (if 0 \<le> d then d div 365 else d div 366) + 1)"
proof (cases "0 \<le> d")
  case True
  then have "0 \<le> d div 365"
    by (simp add: pos_imp_zdiv_nonneg_iff)
  from leap_terms_nonneg [OF this] floor_bounds(2) [of 365 d] True show ?thesis
    by (simp only: DayFromYear_offset if_True) linarith
next
  case False
  then have "d div 366 < 0"
    by (simp add: div_neg_pos_less0)
  from leap_terms_neg [OF this] floor_bounds(2) [of 366 d] False show ?thesis
    by (simp only: DayFromYear_offset if_False) linarith
qed

lemma yearDown_le: "DayFromYear (yearDown y d) \<le> d"
proof (induction y d rule: yearDown.induct)
  case (1 y d)
  then show ?case
    by (cases "DayFromYear y \<le> d") (simp_all add: yearDown.simps [of y d])
qed

lemma yearDown_greatest: "d < DayFromYear (y + 1) \<Longrightarrow> d < DayFromYear (yearDown y d + 1)"
proof (induction y d rule: yearDown.induct)
  case (1 y d)
  show ?case
  proof (cases "DayFromYear y \<le> d")
    case True
    with "1.prems" show ?thesis
      by (simp add: yearDown.simps [of y d])
  next
    case False
    then have "d < DayFromYear (y - 1 + 1)" by simp
    with "1.IH" False show ?thesis
      by (simp add: yearDown.simps [of y d])
  qed
qed

text \<open>
  The computed year is the one ECMA-262 defines: the largest \<open>y\<close> with
  \<open>TimeFromYear(y) \<le> t\<close>.
\<close>

lemma YearFromTime_spec:
  "DayFromYear (YearFromTime t) \<le> Day t \<and> Day t < DayFromYear (YearFromTime t + 1)"
  unfolding YearFromTime_def Let_def
  using yearDown_le yearDown_greatest [OF year_estimate] by blast

lemma YearFromTime_greatest:
  "TimeFromYear (YearFromTime t) \<le> t \<and> (\<forall>y. TimeFromYear y \<le> t \<longrightarrow> y \<le> YearFromTime t)"
proof (intro conjI allI impI)
  note spec = YearFromTime_spec [of t]
  have day: "msPerDay * Day t \<le> t" "t < msPerDay * Day t + msPerDay"
    unfolding Day_def by (rule floor_bounds; simp add: msPerDay_def)+
  from spec have "msPerDay * DayFromYear (YearFromTime t) \<le> msPerDay * Day t"
    by (intro mult_left_mono) (simp_all add: msPerDay_def)
  with day show "TimeFromYear (YearFromTime t) \<le> t"
    unfolding TimeFromYear_def by linarith
  fix y
  assume y: "TimeFromYear y \<le> t"
  show "y \<le> YearFromTime t"
  proof (rule ccontr)
    assume "\<not> y \<le> YearFromTime t"
    then have "DayFromYear (YearFromTime t + 1) \<le> DayFromYear y"
      by (intro DayFromYear_mono) simp
    with spec have "Day t + 1 \<le> DayFromYear y"
      by linarith
    then have "msPerDay * (Day t + 1) \<le> msPerDay * DayFromYear y"
      by (intro mult_left_mono) (simp_all add: msPerDay_def)
    then have "msPerDay * Day t + msPerDay \<le> msPerDay * DayFromYear y"
      by (simp add: algebra_simps)
    with y day show False
      unfolding TimeFromYear_def by linarith
  qed
qed

lemma YearFromTime_unique:
  assumes "DayFromYear y \<le> Day t" and "Day t < DayFromYear (y + 1)"
  shows "YearFromTime t = y"
proof (rule ccontr)
  assume neq: "YearFromTime t \<noteq> y"
  note spec = YearFromTime_spec [of t]
  show False
  proof (cases "YearFromTime t < y")
    case True
    then have "DayFromYear (YearFromTime t + 1) \<le> DayFromYear y"
      by (intro DayFromYear_mono) simp
    with spec assms show False by linarith
  next
    case False
    with neq have "DayFromYear (y + 1) \<le> DayFromYear (YearFromTime t)"
      by (intro DayFromYear_mono) simp
    with spec assms show False by linarith
  qed
qed


subsection \<open>A date-only string, read back\<close>

lemma Day_local:
  assumes "0 \<le> off" and "off < msPerDay"
  shows "Day (D * msPerDay + off) = D"
  unfolding Day_def
  using assms int_div_pos_eq [of "D * msPerDay + off" msPerDay D off]
  by (simp add: mult.commute)

lemma month_cases:
  fixes m :: int
  assumes "1 \<le> m" and "m \<le> 12"
  shows "m = 1 \<or> m = 2 \<or> m = 3 \<or> m = 4 \<or> m = 5 \<or> m = 6 \<or>
         m = 7 \<or> m = 8 \<or> m = 9 \<or> m = 10 \<or> m = 11 \<or> m = 12"
  using assms by arith

lemma DaysInYear_cases: "DaysInYear y = 365 \<or> DaysInYear y = 366"
  by (simp add: DaysInYear_def)

lemma daysBeforeMonth_values:
  "daysBeforeMonth y 0 = 0" "daysBeforeMonth y 1 = 31"
  "daysBeforeMonth y 2 = DaysInYear y - 306" "daysBeforeMonth y 3 = DaysInYear y - 275"
  "daysBeforeMonth y 4 = DaysInYear y - 245" "daysBeforeMonth y 5 = DaysInYear y - 214"
  "daysBeforeMonth y 6 = DaysInYear y - 184" "daysBeforeMonth y 7 = DaysInYear y - 153"
  "daysBeforeMonth y 8 = DaysInYear y - 122" "daysBeforeMonth y 9 = DaysInYear y - 92"
  "daysBeforeMonth y 10 = DaysInYear y - 61" "daysBeforeMonth y 11 = DaysInYear y - 31"
  using DaysInYear_cases [of y] by (auto simp: daysBeforeMonth_def)

lemma MakeDay_in_year:
  assumes "1 \<le> m" and "m \<le> 12"
  shows "MakeDay y (m - 1) d = DayFromYear y + (daysBeforeMonth y (m - 1) + d - 1)"
proof -
  from assms have "(m - 1) div 12 = 0" "(m - 1) mod 12 = m - 1"
    by simp_all
  then show ?thesis
    by (simp add: MakeDay_def Let_def)
qed

lemma day_within_year:
  assumes "1 \<le> m" and "m \<le> 12" and "1 \<le> d" and "d \<le> DaysInMonth y m"
  shows "0 \<le> daysBeforeMonth y (m - 1) + d - 1"
    and "daysBeforeMonth y (m - 1) + d - 1 < DaysInYear y"
  using month_cases [OF assms(1,2)] assms(3,4) DaysInYear_bounds [of y]
  by (elim disjE; simp add: daysBeforeMonth_values DaysInMonth_def)+

lemma month_of_day_within_year:
  assumes "1 \<le> m" and "m \<le> 12" and "1 \<le> d" and "d \<le> DaysInMonth y m"
    and "YearFromTime t = y" and "Day t = DayFromYear y + (daysBeforeMonth y (m - 1) + d - 1)"
  shows "MonthFromTime t = m - 1"
proof -
  have w: "DayWithinYear t = daysBeforeMonth y (m - 1) + d - 1"
    by (simp add: DayWithinYear_def assms(5,6))
  have leap: "InLeapYear t = (if DaysInYear y = 366 then 1 else 0)"
    by (simp add: InLeapYear_def assms(5))
  from month_cases [OF assms(1,2)] assms(3,4) DaysInYear_cases [of y] show ?thesis
    unfolding MonthFromTime_def Let_def w leap
    by (elim disjE) (simp_all add: daysBeforeMonth_values DaysInMonth_def)
qed

lemma local_year_month:
  assumes m: "1 \<le> m" "m \<le> 12" and d: "1 \<le> d" "d \<le> DaysInMonth y m"
    and tz: "0 \<le> LocalTZA host (MakeDate (MakeDay y (m - 1) d) 0)"
        "LocalTZA host (MakeDate (MakeDay y (m - 1) d) 0) < msPerDay"
  shows "YearFromTime (LocalTime host (MakeDate (MakeDay y (m - 1) d) 0)) = y"
    and "MonthFromTime (LocalTime host (MakeDate (MakeDay y (m - 1) d) 0)) = m - 1"
proof -
  let ?t = "LocalTime host (MakeDate (MakeDay y (m - 1) d) 0)"
  have day: "Day ?t = DayFromYear y + (daysBeforeMonth y (m - 1) + d - 1)"
    using Day_local [OF tz, of "MakeDay y (m - 1) d"]
    by (simp add: LocalTime_def MakeDate_def MakeDay_in_year [OF m])
  note w = day_within_year [OF m d]
  show year: "YearFromTime ?t = y"
  proof (rule YearFromTime_unique)
    from w(1) show "DayFromYear y \<le> Day ?t"
      by (simp add: day)
    from w(2) show "Day ?t < DayFromYear (y + 1)"
      by (simp add: day DayFromYear_Suc)
  qed
  show "MonthFromTime ?t = m - 1"
    by (rule month_of_day_within_year [OF m d year day])
qed

subsection \<open>Four-digit years stay within the range of time values\<close>

lemma mathInt_bound:
  "list_all (radixDigit 10) Z \<Longrightarrow> mathInt 10 Z < 10 ^ length Z"
proof (induction Z rule: rev_induct)
  case Nil
  show ?case by (simp add: mathInt_def)
next
  case (snoc c Z)
  then have "mathInt 10 Z < 10 ^ length Z" and "radixDigit 10 c"
    by simp_all
  moreover from \<open>radixDigit 10 c\<close> obtain v where "digitValue c = Some v" "v < 10"
    by (auto simp: radixDigit_def split: option.splits)
  ultimately show ?case
    by (simp add: mathInt_snoc)
qed

lemma parseDateOnly_year:
  assumes "parseDateOnly s = Some (y, m, d)"
  shows "0 \<le> y \<and> y \<le> 9999"
proof -
  from assms have digits: "list_all (radixDigit 10) (take 4 s)" and len: "length s = 10"
    and y: "y = int (mathInt 10 (take 4 s))"
    by (auto simp: parseDateOnly_def split: if_splits)
  from mathInt_bound [OF digits] len have "mathInt 10 (take 4 s) < 10000"
    by simp
  with y show ?thesis by simp
qed

lemma TimeClip_date_only:
  assumes "0 \<le> y" and "y \<le> 9999" and "1 \<le> m" and "m \<le> 12"
    and "1 \<le> d" and "d \<le> DaysInMonth y m"
  shows "TimeClip (Num (MakeDate (MakeDay y (m - 1) d) 0)) = Num (MakeDate (MakeDay y (m - 1) d) 0)"
proof -
  have lo: "DayFromYear 0 \<le> DayFromYear y" and hi: "DayFromYear y \<le> DayFromYear 9999"
    using assms(1,2) by (simp_all add: DayFromYear_mono)
  have "DayFromYear 0 = - 719528" "DayFromYear 9999 = 2932532"
    by (simp_all add: DayFromYear_def)
  with lo hi have year: "- 719528 \<le> DayFromYear y" "DayFromYear y \<le> 2932532"
    by simp_all
  note w = day_within_year [OF assms(3-6)]
  from w DaysInYear_bounds [of y] year
  have "- 719528 \<le> MakeDay y (m - 1) d" "MakeDay y (m - 1) d \<le> 2932898"
    by (simp_all add: MakeDay_in_year [OF assms(3,4)])
  then have "\<bar>MakeDate (MakeDay y (m - 1) d) 0\<bar> \<le> 8640000000000000"
    by (simp add: MakeDate_def msPerDay_def abs_le_iff)
  then show ?thesis
    by (simp add: TimeClip_def)
qed

subsection \<open>processData\<close>

lemma processItem_fields:
  "businessUnit (processItem host C item) = businessUnit item"
  "department (processItem host C item) = department item"
  "salesperson (processItem host C item) = salesperson item"
  "date (processItem host C item) = date item"
  "customerName (processItem host C item) = customerName item"
  "companyName (processItem host C item) = companyName item"
  "sku (processItem host C item) = sku item"
  "productName (processItem host C item) = productName item"
  "quantity (processItem host C item) = quantity item"
  "amount (processItem host C item) = amount item"
  by (simp_all add: processItem_def Let_def RawSalesData.extend_def ProcessedSalesData.fields_def)

lemma processItem_category:
  "(category (processItem host C item), subCategory (processItem host C item))
     = mapProductCategory C (productName item)"
  by (simp add: processItem_def Let_def RawSalesData.extend_def ProcessedSalesData.fields_def)

lemma processItem_year_month:
  "year (processItem host C item) = getFullYear host (newDate host (date item))"
  "month (processItem host C item) = num_add (getMonth host (newDate host (date item))) (Num 1)"
  by (simp_all add: processItem_def Let_def RawSalesData.extend_def ProcessedSalesData.fields_def)

lemma processItem_date_only:
  assumes parse: "parseDateOnly (date item) = Some (y, m, d)"
    and m: "1 \<le> m" "m \<le> 12" and d: "1 \<le> d" "d \<le> DaysInMonth y m"
    and tz: "\<forall>t. 0 \<le> LocalTZA host t \<and> LocalTZA host t < msPerDay"
  shows "year (processItem host C item) = Num y \<and> month (processItem host C item) = Num m"
proof -
  let ?t = "MakeDate (MakeDay y (m - 1) d) 0"
  from parse m d have "Date_parse host (date item) = Num ?t"
    by (simp add: Date_parse_def)
  moreover from parseDateOnly_year [OF parse] have "TimeClip (Num ?t) = Num ?t"
    by (intro TimeClip_date_only m d) simp_all
  ultimately have date: "newDate host (date item) = Num ?t"
    by (simp add: newDate_def)
  from tz have "0 \<le> LocalTZA host ?t" "LocalTZA host ?t < msPerDay"
    by simp_all
  note local = local_year_month [OF m d this]
  show ?thesis
    by (simp add: processItem_year_month date getFullYear_def getMonth_def local)
qed


lemma parseDateOnly_examples:
  "parseDateOnly ''2023-01-01'' = Some (2023, 1, 1)"
  "parseDateOnly ''2024-02-29'' = Some (2024, 2, 29)"
  "parseDateOnly ''2023-03-15'' = Some (2023, 3, 15)"
  by code_simp+

text \<open>
  C8. The specification: for every list of raw records, \<^verbatim>\<open>processData\<close> returns one enriched
  record per input record, in the same order, with the fields of the input, the
  classifier's pair for its \<^verbatim>\<open>productName\<close>, and the calendar year and 1-indexed calendar
  month of its date string. The length, the order, the fields and the classification are
  as specified; the year and the month are not, on every host. \<^verbatim>\<open>new Date\<close> reads a date-only
  string as midnight \<^emph>\<open>UTC\<close>, while \<^verbatim>\<open>getFullYear\<close> and \<^verbatim>\<open>getMonth\<close> answer in
  \<^emph>\<open>local\<close> time: on a host five hours behind UTC the record dated \<^verbatim>\<open>2023-01-01\<close>
  gets year 2022 and month 12, and the one dated \<^verbatim>\<open>2024-03-01\<close> gets month 2.
\<close>

theorem processData_west_of_UTC:
  "map date (processData hostWest sampleConstants
        [sampleRaw ''2023-01-01'' ''Soy'', sampleRaw ''2024-03-01'' ''Oil''])
     = [''2023-01-01'', ''2024-03-01'']
   \<and> map year (processData hostWest sampleConstants
        [sampleRaw ''2023-01-01'' ''Soy'', sampleRaw ''2024-03-01'' ''Oil''])
     = [Num 2022, Num 2024]
   \<and> map month (processData hostWest sampleConstants
        [sampleRaw ''2023-01-01'' ''Soy'', sampleRaw ''2024-03-01'' ''Oil''])
     = [Num 12, Num 2]"
  by code_simp

text \<open>
  What \<^verbatim>\<open>processData\<close> does on every host: one record per input record, in order,
  with the input's fields and the classifier's pair. And on a host whose local time is
  ahead of UTC by less than a day (or equal to it), a date string \<^verbatim>\<open>YYYY-MM-DD\<close> naming
  an existing day gives the year \<open>YYYY\<close> and the month \<open>MM\<close>.
\<close>

theorem processData_enriches:
  "length (processData host C rawData) = length rawData
   \<and> (\<forall>i<length rawData.
        RawSalesData.truncate (processData host C rawData ! i) = rawData ! i
      \<and> (category (processData host C rawData ! i), subCategory (processData host C rawData ! i))
          = mapProductCategory C (productName (rawData ! i))
      \<and> (\<forall>y m d.
            parseDateOnly (date (rawData ! i)) = Some (y, m, d) \<and>
            1 \<le> m \<and> m \<le> 12 \<and> 1 \<le> d \<and> d \<le> DaysInMonth y m \<and>
            (\<forall>t. 0 \<le> LocalTZA host t \<and> LocalTZA host t < msPerDay) \<longrightarrow>
            year (processData host C rawData ! i) = Num y \<and>
            month (processData host C rawData ! i) = Num m))"
proof (intro conjI allI impI)
  show "length (processData host C rawData) = length rawData"
    by (simp add: processData_def)
next
  fix i
  assume "i < length rawData"
  then show "RawSalesData.truncate (processData host C rawData ! i) = rawData ! i"
    by (simp add: processData_def processItem_def Let_def RawSalesData.extend_def
        RawSalesData.truncate_def)
next
  fix i
  assume "i < length rawData"
  then show "(category (processData host C rawData ! i), subCategory (processData host C rawData ! i))
      = mapProductCategory C (productName (rawData ! i))"
    by (simp add: processData_def processItem_category)
next
  fix i y m d
  assume i: "i < length rawData"
    and "parseDateOnly (date (rawData ! i)) = Some (y, m, d) \<and>
      1 \<le> m \<and> m \<le> 12 \<and> 1 \<le> d \<and> d \<le> DaysInMonth y m \<and>
      (\<forall>t. 0 \<le> LocalTZA host t \<and> LocalTZA host t < msPerDay)"
  then have "year (processItem host C (rawData ! i)) = Num y \<and>
      month (processItem host C (rawData ! i)) = Num m"
    by (intro processItem_date_only [of _ y m d]) simp_all
  with i show "year (processData host C rawData ! i) = Num y"
    and "month (processData host C rawData ! i) = Num m"
    by (simp_all add: processData_def)
qed

theorem processData_enriches_witness:
  "processData hostEast sampleConstants [sampleRaw ''2024-02-29'' ''Soy'']
   = [\<lparr>businessUnit = ''East'', department = ''Sales-A'', salesperson = ''Li'',
       date = ''2024-02-29'', customerName = ''Acme Foods'', companyName = ''Acme Group'',
       sku = ''SKU-1'', productName = ''Soy'', quantity = 1, amount = 10,
       category = ''Sauce'', subCategory = ''Soy sauce'', year = Num 2024, month = Num 2\<rparr>]"
proof -
  let ?host = hostEast
  let ?raw = "[sampleRaw ''2024-02-29'' ''Soy'']"
  let ?out = "processData ?host sampleConstants ?raw"
  note enriches = processData_enriches [of ?host sampleConstants ?raw]
  from enriches have len: "length ?out = 1"
    by simp
  from enriches have raw: "RawSalesData.truncate (?out ! 0) = sampleRaw ''2024-02-29'' ''Soy''"
    by simp
  from enriches have "(category (?out ! 0), subCategory (?out ! 0))
      = mapProductCategory sampleConstants ''Soy''"
    by (simp add: sampleRaw_def)
  then have cat: "category (?out ! 0) = ''Sauce''" "subCategory (?out ! 0) = ''Soy sauce''"
    by (simp_all add: mapProductCategory_def sampleConstants_def)
  have "parseDateOnly (date (?raw ! 0)) = Some (2024, 2, 29) \<and>
      (1::int) \<le> 2 \<and> (2::int) \<le> 12 \<and> (1::int) \<le> 29 \<and> 29 \<le> DaysInMonth 2024 2 \<and>
      (\<forall>t. 0 \<le> LocalTZA ?host t \<and> LocalTZA ?host t < msPerDay)"
    by (simp add: sampleRaw_def parseDateOnly_examples DaysInMonth_def DaysInYear_def msPerDay_def
        hostEast_def)
  with enriches have ym: "year (?out ! 0) = Num 2024" "month (?out ! 0) = Num 2"
    by simp_all
  from raw cat ym have "?out ! 0 =
      \<lparr>businessUnit = ''East'', department = ''Sales-A'', salesperson = ''Li'',
       date = ''2024-02-29'', customerName = ''Acme Foods'', companyName = ''Acme Group'',
       sku = ''SKU-1'', productName = ''Soy'', quantity = 1, amount = 10,
       category = ''Sauce'', subCategory = ''Soy sauce'', year = Num 2024, month = Num 2\<rparr>"
    by (cases "?out ! 0") (simp add: sampleRaw_def RawSalesData.truncate_def)
  with len show ?thesis
    by (cases ?out) simp_all
qed

end
